theory Spec2Isabelle
  imports Main "HOL-Library.Word"
begin

section \<open>Addresses: count_rows and address_match\<close>

type_synonym byte = "8 word"

text \<open>
  The ways in which the process ends abnormally: a failed \<^verbatim>\<open>assert\<close> (abort),
  \<^verbatim>\<open>exit(1)\<close>, and \<^verbatim>\<open>alloca\<close> called with a negative size, which the C
  code does not guard against. The assertions are taken as compiled in (no NDEBUG).
\<close>

datatype failure = Assertion_failed | Exit_1 | Negative_alloca

text \<open>
  Modelled from the spec: the header net/xia.h, which declares \<^verbatim>\<open>struct xia_xid\<close>,
  \<^verbatim>\<open>struct xia_row\<close>, \<^verbatim>\<open>XIDTYPE_NAT\<close> and \<^verbatim>\<open>xia_is_nat\<close>, is not among the
  sources. The spec describes a row as an entry identifier typed by a principal type, and
  the row that ends an address as the sentinel "not-a-type". An identifier is the pair of
  its type and its identifier bytes; a row holds an identifier and its edges.
\<close>

type_synonym xid_type_t = "32 word"

record xia_xid =
  xid_type :: xid_type_t
  xid_id :: "byte list"

record xia_row =
  s_xid :: xia_xid
  s_edge :: "32 word"

definition XIDTYPE_NAT :: xid_type_t where
  "XIDTYPE_NAT = 0"

definition xia_is_nat :: "xid_type_t \<Rightarrow> bool" where
  "xia_is_nat ty \<longleftrightarrow> ty = XIDTYPE_NAT"

text \<open>
  A socket address as the code sees it through \<^verbatim>\<open>struct sockaddr *\<close>: the family tag
  decides how the storage is read. A flat (AF_INET) address is kept as the bytes of its
  \<^verbatim>\<open>struct sockaddr_in\<close>, which is all that \<^verbatim>\<open>memcmp\<close> looks at; a hierarchical
  (AF_XIA) address is the array \<^verbatim>\<open>sxia_addr.s_row\<close>, a list whose length is the
  array's length XIA_NODES_MAX; any other family carries its tag only.
\<close>

datatype sa_family_t = AF_INET | AF_XIA | AF_OTHER nat

datatype sockaddr =
    Sockaddr_in (sin_image: "byte list")
  | Sockaddr_xia (s_row: "xia_row list")
  | Sockaddr_other nat

fun sa_family :: "sockaddr \<Rightarrow> sa_family_t" where
  "sa_family (Sockaddr_in _) = AF_INET"
| "sa_family (Sockaddr_xia _) = AF_XIA"
| "sa_family (Sockaddr_other t) = AF_OTHER t"

text \<open>
  \<^verbatim>\<open>count_rows\<close>: the loop \<^verbatim>\<open>for (i = 0; i < XIA_NODES_MAX; i++)\<close> that stops at
  the first row whose type is the sentinel; \<open>count_rows_from\<close> is the loop from index
  \<open>i\<close> on.
\<close>

function count_rows_from :: "xia_row list \<Rightarrow> nat \<Rightarrow> nat" where
  "count_rows_from rows i =
     (if i < length rows
      then (if xia_is_nat (xid_type (s_xid (rows ! i))) then i
            else count_rows_from rows (i + 1))
      else i)"
  by pat_completeness auto
termination
  by (relation "measure (\<lambda>(rows, i). length rows - i)") auto

declare count_rows_from.simps [simp del]

definition count_rows :: "xia_row list \<Rightarrow> nat" where
  "count_rows rows = count_rows_from rows 0"

text \<open>
  \<^verbatim>\<open>memcmp(a, b, n) == 0\<close> on two byte images: the first \<open>n\<close> bytes agree. The C
  call reads \<open>n\<close> bytes whatever the size of the objects; the model stops at the end of
  the images.
\<close>

definition memcmp_eq :: "byte list \<Rightarrow> byte list \<Rightarrow> nat \<Rightarrow> bool" where
  "memcmp_eq a b n \<longleftrightarrow> take n a = take n b"

text \<open>
  \<^verbatim>\<open>address_match\<close>. The C function returns an int that is 1 or 0 (the value of
  \<^verbatim>\<open>!memcmp(...)\<close>), here a bool. The identifier \<^verbatim>\<open>s_xid\<close> has no padding (a
  32-bit type and the identifier bytes), so \<^verbatim>\<open>memcmp\<close> over it is equality of the
  two identifiers.
\<close>

definition address_match :: "sockaddr \<Rightarrow> nat \<Rightarrow> sockaddr \<Rightarrow> nat \<Rightarrow> failure + bool" where
  "address_match addr addr_len expected exp_len =
     (if sa_family addr \<noteq> sa_family expected then Inl Assertion_failed
      else case sa_family addr of
        AF_INET \<Rightarrow>
          Inr (addr_len = exp_len \<and> memcmp_eq (sin_image addr) (sin_image expected) addr_len)
      | AF_XIA \<Rightarrow>
          (let addr_n = count_rows (s_row addr);
               exp_n = count_rows (s_row expected)
           in if \<not> (addr_n > 0 \<and> exp_n > 0) then Inl Assertion_failed
              else Inr (s_xid (s_row addr ! (addr_n - 1)) = s_xid (s_row expected ! (exp_n - 1))))
      | AF_OTHER _ \<Rightarrow> Inl Assertion_failed)"

text \<open>
  The effective rows of a hierarchical address, in the words of the spec: the rows before
  the first sentinel row.
\<close>

definition effective_rows :: "xia_row list \<Rightarrow> xia_row list" where
  "effective_rows rows = takeWhile (\<lambda>r. \<not> xia_is_nat (xid_type (s_xid r))) rows"

section \<open>The process and its surroundings\<close>

text \<open>
  The code talks to the kernel through one socket and writes two streams: the mirror file
  \<^verbatim>\<open>copy\<close> and \<^verbatim>\<open>stderr\<close>. An \<open>event\<close> is one call on the socket together with
  what it returned; \<open>Ev_mark\<close> is a call of the hook \<^verbatim>\<open>f(s)\<close>, whose body belongs to
  the caller.
\<close>

datatype event =
    Ev_sendto "byte list" int
  | Ev_write "byte list" int
  | Ev_mark
  | Ev_select int
  | Ev_recvfrom nat int
  | Ev_read nat int "byte list"

text \<open>
  \<open>copy\<close> lists the \<^verbatim>\<open>fwrite\<close> calls made on the mirror file, oldest first, so the
  content of the file is \<open>concat (copy w)\<close>; \<open>hist\<close> lists the socket events, newest
  first.
\<close>

record world =
  copy :: "byte list list"
  err_out :: string
  hist :: "event list"

record timeval =
  tv_sec :: int
  tv_usec :: int

text \<open>
  What the kernel and the peer answer. Each answer may depend on everything the process
  has done on the socket so far (\<open>hist\<close>), and on the arguments of the call:
  \<^item> \<open>net_sendto\<close> and \<open>net_write\<close> give the return value of \<^verbatim>\<open>sendto\<close> and
    \<^verbatim>\<open>write\<close>;
  \<^item> \<open>net_select\<close> gives the return value of \<^verbatim>\<open>select\<close> for the given timeout;
  \<^item> \<open>net_recvfrom\<close> is the datagram at the head of the socket's queue, with its
    sender and the length of the sender's address, or an error;
  \<^item> \<open>net_read\<close> is the bytes the stream has ready (none when the peer has closed), or an
    error.
\<close>

datatype recvfrom_result = Recvfrom_error | Datagram "byte list" sockaddr nat

datatype read_result = Read_error | Read_avail "byte list"

record net =
  net_sendto :: "event list \<Rightarrow> byte list \<Rightarrow> sockaddr \<Rightarrow> nat \<Rightarrow> int"
  net_write :: "event list \<Rightarrow> byte list \<Rightarrow> int"
  net_select :: "event list \<Rightarrow> timeval \<Rightarrow> int"
  net_recvfrom :: "event list \<Rightarrow> nat \<Rightarrow> recvfrom_result"
  net_read :: "event list \<Rightarrow> nat \<Rightarrow> read_result"

text \<open>
  \<^verbatim>\<open>read(s, buf, n)\<close>: at most \<open>n\<close> of the ready bytes are handed over and counted;
  an error is \<open>-1\<close>.
\<close>

fun sys_read :: "read_result \<Rightarrow> nat \<Rightarrow> int \<times> byte list" where
  "sys_read Read_error n = (- 1, [])"
| "sys_read (Read_avail bs) n = (int (length (take n bs)), take n bs)"

text \<open>
  \<^verbatim>\<open>send_packet\<close>. The text printed before \<^verbatim>\<open>exit(1)\<close> carries \<^verbatim>\<open>errno\<close>, which
  the model does not have; the fixed part of the message stands for it.
\<close>

definition send_packet ::
  "net \<Rightarrow> world \<Rightarrow> byte list \<Rightarrow> sockaddr \<Rightarrow> nat \<Rightarrow> (failure \<times> world) + world" where
  "send_packet nt w buf dst dst_len =
     (let rc = net_sendto nt (hist w) buf dst dst_len;
          w1 = w\<lparr>hist := Ev_sendto buf rc # hist w\<rparr>
      in if rc < 0
         then Inl (Exit_1, w1\<lparr>err_out := err_out w1 @ ''send_packet: sendto errno''\<rparr>)
         else Inr w1)"

text \<open>
  \<^verbatim>\<open>recv_write\<close>. The buffer \<^verbatim>\<open>out\<close> has \<open>n_sent\<close> bytes, so a longer datagram is
  cut to \<open>n_sent\<close> bytes by \<^verbatim>\<open>recvfrom\<close>, and \<open>n_read\<close> is the number of bytes kept.
\<close>

definition recv_write ::
  "net \<Rightarrow> world \<Rightarrow> sockaddr \<Rightarrow> nat \<Rightarrow> int \<Rightarrow> (failure \<times> world) + world" where
  "recv_write nt w expected_src exp_src_len n_sent =
     (let rc = net_select nt (hist w) \<lparr>tv_sec = 2, tv_usec = 0\<rparr>;
          w1 = w\<lparr>hist := Ev_select rc # hist w\<rparr>
      in if \<not> rc \<ge> 0 then Inl (Assertion_failed, w1)
         else if rc = 0 then Inr (w1\<lparr>err_out := err_out w1 @ ''.''\<rparr>)
         else if n_sent < 0 then Inl (Negative_alloca, w1)
         else (case net_recvfrom nt (hist w1) (nat n_sent) of
                 Recvfrom_error \<Rightarrow>
                   Inl (Assertion_failed, w1\<lparr>hist := Ev_recvfrom (nat n_sent) (- 1) # hist w1\<rparr>)
               | Datagram payload src len \<Rightarrow>
                   (let out = take (nat n_sent) payload;
                        n_read = int (length out);
                        w2 = w1\<lparr>hist := Ev_recvfrom (nat n_sent) n_read # hist w1\<rparr>
                    in case address_match src len expected_src exp_src_len of
                         Inl e \<Rightarrow> Inl (e, w2)
                       | Inr ok \<Rightarrow>
                           if \<not> ok then Inl (Assertion_failed, w2)
                           else Inr (w2\<lparr>copy := copy w2 @ [take (nat n_read) out]\<rparr>))))"

text \<open>
  \<^verbatim>\<open>read_write\<close>. \<open>read_write_loop\<close> is the loop \<^verbatim>\<open>while (n_sent > n_read)\<close>;
  \<open>out\<close> holds the first \<open>n_read\<close> bytes of the buffer. It returns the bytes collected,
  or nothing when a read gave up and the function returned early. With a negative
  \<open>n_sent\<close> the loop is not entered, the buffer is never touched and the assertion
  \<^verbatim>\<open>n_read == n_sent\<close> fails.
\<close>

function read_write_loop ::
  "net \<Rightarrow> world \<Rightarrow> int \<Rightarrow> int \<Rightarrow> byte list \<Rightarrow> world \<times> (int \<times> byte list) option" where
  "read_write_loop nt w n_sent n_read out =
     (if n_sent > n_read
      then (let req = nat (n_sent - n_read);
                r = sys_read (net_read nt (hist w) req) req;
                w1 = w\<lparr>hist := Ev_read req (fst r) (snd r) # hist w\<rparr>
            in if fst r \<le> 0 then (w1\<lparr>err_out := err_out w1 @ ''.''\<rparr>, None)
               else read_write_loop nt w1 n_sent (n_read + fst r) (out @ snd r))
      else (w, Some (n_read, out)))"
  by pat_completeness auto
termination
  by (relation "measure (\<lambda>(nt, w, n_sent, n_read, out). nat (n_sent - n_read))") auto

declare read_write_loop.simps [simp del]

definition read_write :: "net \<Rightarrow> world \<Rightarrow> int \<Rightarrow> (failure \<times> world) + world" where
  "read_write nt w n_sent =
     (case read_write_loop nt w n_sent 0 [] of
        (w1, None) \<Rightarrow> Inr w1
      | (w1, Some (n_read, out)) \<Rightarrow>
          if n_read \<noteq> n_sent then Inl (Assertion_failed, w1)
          else Inr (w1\<lparr>copy := copy w1 @ [take (nat n_read) out]\<rparr>))"

section \<open>The transfer engine\<close>

text \<open>
  The file system as the two entry points meet it: \<open>orig_data\<close> is the content of the
  source file, or nothing when \<^verbatim>\<open>fopen(orig_name, "rb")\<close> fails; \<open>orig_bad\<close> says that
  the device reports an error where the content ends, instead of the end of the file; the
  other fields say whether \<^verbatim>\<open>fopen_copy\<close> and the two \<^verbatim>\<open>fclose\<close> calls succeed.
\<close>

record filesys =
  orig_data :: "byte list option"
  orig_bad :: bool
  copy_opens :: bool
  copy_closes :: bool
  orig_closes :: bool

text \<open>
  \<^verbatim>\<open>fread(buf, 1, n, orig)\<close> on the unread rest of the file: the bytes read, the
  rest left, and whether the call ran into the end of the content. Only then does the
  stream set its end-of-file indicator (or its error indicator, on a bad device); a call
  that gets all \<open>n\<close> bytes sets neither, also when nothing is left behind it, and a call
  for no bytes at all never does.
\<close>

definition fread :: "nat \<Rightarrow> byte list \<Rightarrow> byte list \<times> byte list \<times> bool" where
  "fread n rest = (take n rest, drop n rest, length rest < n)"

text \<open>
  The variables of \<^verbatim>\<open>datagram_process_file\<close> and \<^verbatim>\<open>stream_process_file\<close> while the
  loop runs: the unread rest of \<^verbatim>\<open>orig\<close>, the two counters, and the world. The
  parameter \<^verbatim>\<open>times\<close> of the two entry points is written \<open>n_times\<close>.
\<close>

record xfer =
  orig :: "byte list"
  count :: int
  bytes_sent :: int
  io :: world

text \<open>
  The counters are C ints of 32 bits. \<open>c_int x\<close> is the value an int holds after the
  mathematical result \<open>x\<close> has been stored in it: \<open>x\<close> wrapped into the range from
  \<open>- INT_MAX - 1\<close> to \<open>INT_MAX\<close>. This is what \<^verbatim>\<open>count++\<close> and
  \<^verbatim>\<open>bytes_sent += bytes_read\<close> leave behind once a sum passes \<open>INT_MAX\<close>.
\<close>

definition INT_MAX :: int where
  "INT_MAX = 2147483647"

definition c_int :: "int \<Rightarrow> int" where
  "c_int x = (x + 2147483648) mod 4294967296 - 2147483648"

text \<open>Sequencing of steps that can end the process.\<close>

definition and_then :: "'e + 'a \<Rightarrow> ('a \<Rightarrow> 'e + 'b) \<Rightarrow> 'e + 'b" where
  "and_then r k = (case r of Inl e \<Rightarrow> Inl e | Inr x \<Rightarrow> k x)"

text \<open>
  \<^verbatim>\<open>if (f) f(s);\<close> with \<open>f\<close> true when a hook is given. Modelled from the spec:
  the header eutils.h with the type \<^verbatim>\<open>pff_mark_t\<close> of the hook is not among the
  sources; by the spec the hook receives only the socket handle and returns nothing that
  the engine looks at. Its call is recorded as the event \<open>Ev_mark\<close>.
\<close>

definition call_hook :: "bool \<Rightarrow> world \<Rightarrow> world" where
  "call_hook f w = (if f then w\<lparr>hist := Ev_mark # hist w\<rparr> else w)"

subsection \<open>Datagram transport\<close>

text \<open>\<^verbatim>\<open>if (bytes_read > 0) { send_packet(...); count++; bytes_sent += bytes_read; }\<close>\<close>

definition datagram_send ::
  "net \<Rightarrow> sockaddr \<Rightarrow> nat \<Rightarrow> byte list \<Rightarrow> xfer \<Rightarrow> (failure \<times> world) + xfer" where
  "datagram_send nt srv srv_len buf st =
     (if length buf > 0
      then and_then (send_packet nt (io st) buf srv srv_len)
             (\<lambda>w. Inr (st\<lparr>io := w, count := c_int (count st + 1),
                          bytes_sent := c_int (bytes_sent st + int (length buf))\<rparr>))
      else Inr st)"

text \<open>
  \<^verbatim>\<open>if (count == times) { if (f) f(s); recv_write(...); count = bytes_sent = 0; }\<close>
\<close>

definition datagram_checkpoint ::
  "net \<Rightarrow> sockaddr \<Rightarrow> nat \<Rightarrow> int \<Rightarrow> bool \<Rightarrow> xfer \<Rightarrow> (failure \<times> world) + xfer" where
  "datagram_checkpoint nt srv srv_len n_times f st =
     (if count st = n_times
      then and_then (recv_write nt (call_hook f (io st)) srv srv_len (bytes_sent st))
             (\<lambda>w. Inr (st\<lparr>io := w, count := 0, bytes_sent := 0\<rparr>))
      else Inr st)"

text \<open>
  One pass through the body of the \<^verbatim>\<open>do ... while (!feof(orig))\<close> loop; the second
  component of the result is \<^verbatim>\<open>feof(orig)\<close> at the end of the pass.
\<close>

definition datagram_body ::
  "net \<Rightarrow> bool \<Rightarrow> sockaddr \<Rightarrow> nat \<Rightarrow> nat \<Rightarrow> int \<Rightarrow> bool \<Rightarrow> xfer
     \<Rightarrow> (failure \<times> world) + (xfer \<times> bool)" where
  "datagram_body nt bad srv srv_len chunk_size n_times f st =
     (case fread chunk_size (orig st) of
        (buf, rest, at_end) \<Rightarrow>
          if at_end \<and> bad then Inl (Assertion_failed, io st)
          else and_then (datagram_send nt srv srv_len buf (st\<lparr>orig := rest\<rparr>))
                 (\<lambda>st1. and_then (datagram_checkpoint nt srv srv_len n_times f st1)
                    (\<lambda>st2. Inr (st2, at_end))))"

partial_function (option) datagram_loop ::
  "net \<Rightarrow> bool \<Rightarrow> sockaddr \<Rightarrow> nat \<Rightarrow> nat \<Rightarrow> int \<Rightarrow> bool \<Rightarrow> xfer
     \<Rightarrow> ((failure \<times> world) + xfer) option" where
  "datagram_loop nt bad srv srv_len chunk_size n_times f st =
     (case datagram_body nt bad srv srv_len chunk_size n_times f st of
        Inl e \<Rightarrow> Some (Inl e)
      | Inr (st1, eof) \<Rightarrow>
          if eof then Some (Inr st1)
          else datagram_loop nt bad srv srv_len chunk_size n_times f st1)"

text \<open>After the loop: \<^verbatim>\<open>if (count) { if (f) f(s); recv_write(...); }\<close>\<close>

definition datagram_flush ::
  "net \<Rightarrow> sockaddr \<Rightarrow> nat \<Rightarrow> bool \<Rightarrow> xfer \<Rightarrow> (failure \<times> world) + world" where
  "datagram_flush nt srv srv_len f st =
     (if count st \<noteq> 0
      then recv_write nt (call_hook f (io st)) srv srv_len (bytes_sent st)
      else Inr (io st))"

text \<open>The two \<^verbatim>\<open>assert(!fclose(...))\<close> at the end of both entry points.\<close>

definition close_files :: "filesys \<Rightarrow> world \<Rightarrow> (failure \<times> world) + world" where
  "close_files fs w =
     (if \<not> copy_closes fs then Inl (Assertion_failed, w)
      else if \<not> orig_closes fs then Inl (Assertion_failed, w)
      else Inr w)"

text \<open>
  The world in which an entry point starts: an empty mirror file (opened with "wb"),
  nothing printed and nothing done on the socket yet.
\<close>

definition start_world :: world where
  "start_world = \<lparr>copy = [], err_out = [], hist = []\<rparr>"

text \<open>
  \<^verbatim>\<open>datagram_process_file\<close>. The result is \<open>None\<close> when the loop never ends, the
  failure and the world at that moment when the process is ended, and the final world
  otherwise. \<^verbatim>\<open>alloca(chunk_size)\<close> comes after the two files are opened.
\<close>

definition datagram_process_file ::
  "net \<Rightarrow> filesys \<Rightarrow> sockaddr \<Rightarrow> nat \<Rightarrow> int \<Rightarrow> int \<Rightarrow> bool
     \<Rightarrow> ((failure \<times> world) + world) option" where
  "datagram_process_file nt fs srv srv_len chunk_size n_times f =
     (case orig_data fs of
        None \<Rightarrow> Some (Inl (Assertion_failed, start_world))
      | Some data \<Rightarrow>
          if \<not> copy_opens fs then Some (Inl (Assertion_failed, start_world))
          else if chunk_size < 0 then Some (Inl (Negative_alloca, start_world))
          else (case datagram_loop nt (orig_bad fs) srv srv_len (nat chunk_size) n_times f
                       \<lparr>orig = data, count = 0, bytes_sent = 0, io = start_world\<rparr> of
                  None \<Rightarrow> None
                | Some r \<Rightarrow>
                    Some (and_then r (\<lambda>st.
                            and_then (datagram_flush nt srv srv_len f st) (close_files fs)))))"

subsection \<open>Stream transport\<close>

text \<open>
  \<^verbatim>\<open>if (bytes_read > 0) { assert(write(s, buf, bytes_read) == (ssize_t)bytes_read);
  count++; bytes_sent += bytes_read; }\<close>
\<close>

definition stream_send :: "net \<Rightarrow> byte list \<Rightarrow> xfer \<Rightarrow> (failure \<times> world) + xfer" where
  "stream_send nt buf st =
     (if length buf > 0
      then (let rc = net_write nt (hist (io st)) buf;
                w = (io st)\<lparr>hist := Ev_write buf rc # hist (io st)\<rparr>
            in if rc \<noteq> int (length buf) then Inl (Assertion_failed, w)
               else Inr (st\<lparr>io := w, count := c_int (count st + 1),
                           bytes_sent := c_int (bytes_sent st + int (length buf))\<rparr>))
      else Inr st)"

text \<open>
  \<^verbatim>\<open>if (count == times) { if (f) f(s); read_write(...); count = bytes_sent = 0; }\<close>
\<close>

definition stream_checkpoint ::
  "net \<Rightarrow> int \<Rightarrow> bool \<Rightarrow> xfer \<Rightarrow> (failure \<times> world) + xfer" where
  "stream_checkpoint nt n_times f st =
     (if count st = n_times
      then and_then (read_write nt (call_hook f (io st)) (bytes_sent st))
             (\<lambda>w. Inr (st\<lparr>io := w, count := 0, bytes_sent := 0\<rparr>))
      else Inr st)"

definition stream_body ::
  "net \<Rightarrow> bool \<Rightarrow> nat \<Rightarrow> int \<Rightarrow> bool \<Rightarrow> xfer \<Rightarrow> (failure \<times> world) + (xfer \<times> bool)" where
  "stream_body nt bad chunk_size n_times f st =
     (case fread chunk_size (orig st) of
        (buf, rest, at_end) \<Rightarrow>
          if at_end \<and> bad then Inl (Assertion_failed, io st)
          else and_then (stream_send nt buf (st\<lparr>orig := rest\<rparr>))
                 (\<lambda>st1. and_then (stream_checkpoint nt n_times f st1)
                    (\<lambda>st2. Inr (st2, at_end))))"

partial_function (option) stream_loop ::
  "net \<Rightarrow> bool \<Rightarrow> nat \<Rightarrow> int \<Rightarrow> bool \<Rightarrow> xfer \<Rightarrow> ((failure \<times> world) + xfer) option" where
  "stream_loop nt bad chunk_size n_times f st =
     (case stream_body nt bad chunk_size n_times f st of
        Inl e \<Rightarrow> Some (Inl e)
      | Inr (st1, eof) \<Rightarrow>
          if eof then Some (Inr st1)
          else stream_loop nt bad chunk_size n_times f st1)"

definition stream_flush :: "net \<Rightarrow> bool \<Rightarrow> xfer \<Rightarrow> (failure \<times> world) + world" where
  "stream_flush nt f st =
     (if count st \<noteq> 0
      then read_write nt (call_hook f (io st)) (bytes_sent st)
      else Inr (io st))"

definition stream_process_file ::
  "net \<Rightarrow> filesys \<Rightarrow> int \<Rightarrow> int \<Rightarrow> bool \<Rightarrow> ((failure \<times> world) + world) option" where
  "stream_process_file nt fs chunk_size n_times f =
     (case orig_data fs of
        None \<Rightarrow> Some (Inl (Assertion_failed, start_world))
      | Some data \<Rightarrow>
          if \<not> copy_opens fs then Some (Inl (Assertion_failed, start_world))
          else if chunk_size < 0 then Some (Inl (Negative_alloca, start_world))
          else (case stream_loop nt (orig_bad fs) (nat chunk_size) n_times f
                       \<lparr>orig = data, count = 0, bytes_sent = 0, io = start_world\<rparr> of
                  None \<Rightarrow> None
                | Some r \<Rightarrow>
                    Some (and_then r (\<lambda>st.
                            and_then (stream_flush nt f st) (close_files fs)))))"

declare datagram_loop.simps [code]
declare stream_loop.simps [code]

section \<open>Notions used to state the claims\<close>

text \<open>
  Reading a history. \<open>is_read\<close>, \<open>gave_up\<close> and \<open>read_data\<close> describe one \<^verbatim>\<open>read\<close>
  event: that it is one, that it returned zero or less, and the bytes it delivered.
\<close>

fun is_read :: "event \<Rightarrow> bool" where
  "is_read (Ev_read n r d) = True"
| "is_read _ = False"

fun gave_up :: "event \<Rightarrow> bool" where
  "gave_up (Ev_read n r d) = (r \<le> 0)"
| "gave_up _ = False"

fun read_data :: "event \<Rightarrow> byte list" where
  "read_data (Ev_read n r d) = d"
| "read_data _ = []"

text \<open>
  What the spec asks of the stream receiver, read off a list of events in the order in
  which they happened: \<open>reads_follow nt h remaining evs\<close> says that \<open>evs\<close> are reads
  and nothing else; that each of them asks for exactly the bytes still missing and
  returns what \<open>net_read\<close> answers to that request after the history so far; that no
  read follows one that returned zero or less, nor one that completed the target; and
  that the list does not stop before one of the two has happened.
\<close>

fun reads_follow :: "net \<Rightarrow> event list \<Rightarrow> nat \<Rightarrow> event list \<Rightarrow> bool" where
  "reads_follow nt h remaining [] = (remaining = 0)"
| "reads_follow nt h remaining (Ev_read req rc d # evs) =
     (remaining > 0 \<and> req = remaining \<and> (rc, d) = sys_read (net_read nt h req) req \<and>
      (if rc \<le> 0 then evs = []
       else reads_follow nt (Ev_read req rc d # h) (remaining - length d) evs))"
| "reads_follow nt h remaining (_ # evs) = False"

text \<open>
  \<open>short_write\<close>: a \<^verbatim>\<open>write\<close> event whose return value is not the number of bytes
  handed over.
\<close>

fun short_write :: "event \<Rightarrow> bool" where
  "short_write (Ev_write buf rc) = (rc \<noteq> int (length buf))"
| "short_write _ = False"

text \<open>
  \<open>awaited h\<close>: the bytes that have been handed to the transport and whose echo the
  engine is still waiting for after the history \<open>h\<close>. A receive ends the wait for a
  datagram batch, a timeout or a failed read gives the batch up, and a successful read
  takes the bytes it delivered off the front.
\<close>

fun awaited :: "event list \<Rightarrow> byte list" where
  "awaited [] = []"
| "awaited (Ev_sendto buf rc # h) = awaited h @ buf"
| "awaited (Ev_write buf rc # h) = awaited h @ buf"
| "awaited (Ev_mark # h) = awaited h"
| "awaited (Ev_select rc # h) = (if rc = 0 then [] else awaited h)"
| "awaited (Ev_recvfrom n r # h) = []"
| "awaited (Ev_read n r d # h) = (if r \<le> 0 then [] else drop (length d) (awaited h))"



text \<open>
  A transport that never ends the process, whatever it loses. For datagrams: every
  \<^verbatim>\<open>sendto\<close> is accepted, \<^verbatim>\<open>select\<close> does not fail, and a datagram that is received
  comes from an address that matches \<open>srv\<close>. For a stream: every \<^verbatim>\<open>write\<close> takes
  all its bytes.
\<close>

definition nonfatal_datagram :: "net \<Rightarrow> sockaddr \<Rightarrow> nat \<Rightarrow> bool" where
  "nonfatal_datagram nt srv srv_len \<longleftrightarrow>
     (\<forall>h buf. net_sendto nt h buf srv srv_len \<ge> 0) \<and>
     (\<forall>h. net_select nt h \<lparr>tv_sec = 2, tv_usec = 0\<rparr> \<ge> 0) \<and>
     (\<forall>h n. \<exists>payload src len. net_recvfrom nt h n = Datagram payload src len \<and>
                      address_match src len srv srv_len = Inr True)"

definition nonfatal_stream :: "net \<Rightarrow> bool" where
  "nonfatal_stream nt \<longleftrightarrow> (\<forall>h buf. net_write nt h buf = int (length buf))"

text \<open>
  The number of chunks of a file of \<open>len\<close> bytes read \<open>chunk_size\<close> bytes at a time.
\<close>

definition chunks_of :: "nat \<Rightarrow> nat \<Rightarrow> nat" where
  "chunks_of len chunk_size = (len + chunk_size - 1) div chunk_size"




text \<open>
  The world after a batch has been given up by \<open>recv_write\<close>: the wait returned 0 and
  the marker "." was printed; the mirror file is untouched.
\<close>

definition lost_batch :: "world \<Rightarrow> world" where
  "lost_batch w = w\<lparr>hist := Ev_select 0 # hist w, err_out := err_out w @ ''.''\<rparr>"

text \<open>
  The world in which a run of an entry point ends, normally or not, and the histories in
  which no \<^verbatim>\<open>write\<close> was short.
\<close>

definition world_of :: "(failure \<times> world) + world \<Rightarrow> world" where
  "world_of r = (case r of Inl (e, w) \<Rightarrow> w | Inr w \<Rightarrow> w)"

definition no_short_write :: "event list \<Rightarrow> bool" where
  "no_short_write h \<longleftrightarrow> (\<forall>e \<in> set h. \<not> short_write e)"

subsection \<open>Concrete surroundings for the examples\<close>

text \<open>
  \<open>echo_net\<close> is a peer that echoes everything without loss, answering from the address
  \<open>peer\<close> and delivering at most \<open>seg\<close> bytes to one \<^verbatim>\<open>read\<close>; \<open>silent_net\<close> accepts
  what is sent and never answers: every wait times out and the stream is closed;
  \<open>short_net\<close> answers each wait with the datagram \<open>reply\<close> from \<open>peer\<close>, and takes only
  \<open>k\<close> bytes of every \<^verbatim>\<open>write\<close>.
\<close>

definition echo_net :: "sockaddr \<Rightarrow> nat \<Rightarrow> nat \<Rightarrow> net" where
  "echo_net peer peer_len seg =
     \<lparr>net_sendto = (\<lambda>h buf dst dst_len. int (length buf)),
      net_write = (\<lambda>h buf. int (length buf)),
      net_select = (\<lambda>h tv. 1),
      net_recvfrom = (\<lambda>h n. Datagram (awaited h) peer peer_len),
      net_read = (\<lambda>h n. Read_avail (take seg (awaited h)))\<rparr>"

definition silent_net :: net where
  "silent_net =
     \<lparr>net_sendto = (\<lambda>h buf dst dst_len. int (length buf)),
      net_write = (\<lambda>h buf. int (length buf)),
      net_select = (\<lambda>h tv. 0),
      net_recvfrom = (\<lambda>h n. Recvfrom_error),
      net_read = (\<lambda>h n. Read_avail [])\<rparr>"

definition short_net :: "byte list \<Rightarrow> sockaddr \<Rightarrow> nat \<Rightarrow> nat \<Rightarrow> net" where
  "short_net reply peer peer_len k =
     \<lparr>net_sendto = (\<lambda>h buf dst dst_len. int (length buf)),
      net_write = (\<lambda>h buf. int (min k (length buf))),
      net_select = (\<lambda>h tv. 1),
      net_recvfrom = (\<lambda>h n. Datagram reply peer peer_len),
      net_read = (\<lambda>h n. Read_avail reply)\<rparr>"

definition inet_peer :: sockaddr where
  "inet_peer = Sockaddr_in [2, 0, 0, 80, 10, 0, 0, 1, 0, 0, 0, 0, 0, 0, 0, 0]"

definition inet_other :: sockaddr where
  "inet_other = Sockaddr_in [2, 0, 0, 80, 10, 0, 0, 99, 0, 0, 0, 0, 0, 0, 0, 0]"

definition good_files :: "byte list \<Rightarrow> filesys" where
  "good_files d =
     \<lparr>orig_data = Some d, orig_bad = False, copy_opens = True, copy_closes = True,
      orig_closes = True\<rparr>"

section \<open>Properties of the addresses\<close>

lemma count_rows_from_takeWhile:
  "i \<le> length rows \<Longrightarrow>
   count_rows_from rows i =
     i + length (takeWhile (\<lambda>r. \<not> xia_is_nat (xid_type (s_xid r))) (drop i rows))"
proof (induction rows i rule: count_rows_from.induct)
  case (1 rows i)
  show ?case
  proof (cases "i < length rows")
    case False
    with "1.prems" show ?thesis by (subst count_rows_from.simps) simp
  next
    case True
    then have d: "drop i rows = rows ! i # drop (Suc i) rows"
      by (simp add: Cons_nth_drop_Suc)
    show ?thesis
    proof (cases "xia_is_nat (xid_type (s_xid (rows ! i)))")
      case True
      with \<open>i < length rows\<close> d show ?thesis
        by (subst count_rows_from.simps) simp
    next
      case False
      with \<open>i < length rows\<close> have "count_rows_from rows i = count_rows_from rows (i + 1)"
        by (subst count_rows_from.simps) simp
      also have "\<dots> = (i + 1) + length (takeWhile (\<lambda>r. \<not> xia_is_nat (xid_type (s_xid r)))
                                      (drop (i + 1) rows))"
        using "1.IH" [OF \<open>i < length rows\<close> False] \<open>i < length rows\<close> by simp
      finally show ?thesis using d False by simp
    qed
  qed
qed

lemma count_rows_effective: "count_rows rows = length (effective_rows rows)"
  by (simp add: count_rows_def effective_rows_def count_rows_from_takeWhile)

lemma effective_rows_nth:
  "i < length (effective_rows rows) \<Longrightarrow> rows ! i = effective_rows rows ! i"
  unfolding effective_rows_def by (simp add: takeWhile_nth)

lemma last_effective_row:
  "effective_rows rows = pre @ [r] \<Longrightarrow> rows ! (count_rows rows - 1) = r"
proof -
  assume e: "effective_rows rows = pre @ [r]"
  then have "count_rows rows - 1 < length (effective_rows rows)"
    by (simp add: count_rows_effective)
  then have "rows ! (count_rows rows - 1) = effective_rows rows ! (count_rows rows - 1)"
    by (rule effective_rows_nth)
  with e show ?thesis by (simp add: count_rows_effective)
qed

lemma effective_rows_Nil_iff:
  "effective_rows rows = [] \<longleftrightarrow> (case rows of [] \<Rightarrow> True | r # _ \<Rightarrow> xia_is_nat (xid_type (s_xid r)))"
  by (cases rows) (simp_all add: effective_rows_def)

lemma last_effective_row_last:
  assumes "effective_rows rows \<noteq> []"
  shows "rows ! (count_rows rows - 1) = last (effective_rows rows)"
proof -
  from assms obtain pre r where e: "effective_rows rows = pre @ [r]"
    by (metis append_butlast_last_id)
  with last_effective_row [OF e] show ?thesis by simp
qed

subsection \<open>Claims about address_match\<close>

text \<open>
  C2. For two hierarchical addresses that each have at least one effective row,
  \<open>address_match\<close> returns normally, and its value is true exactly when the identifiers of
  the two last effective rows are equal. The value is a function of those two identifiers
  alone: the rows before the last effective row, the rows after the sentinel and the two
  lengths passed along do not enter it.
\<close>

theorem address_match_suffix_only:
  assumes "effective_rows a \<noteq> []" and "effective_rows e \<noteq> []"
  shows "address_match (Sockaddr_xia a) addr_len (Sockaddr_xia e) exp_len =
           Inr (s_xid (last (effective_rows a)) = s_xid (last (effective_rows e)))"
proof -
  from assms have n: "count_rows a > 0" "count_rows e > 0"
    by (simp_all add: count_rows_effective)
  have "address_match (Sockaddr_xia a) addr_len (Sockaddr_xia e) exp_len =
          Inr (s_xid (a ! (count_rows a - 1)) = s_xid (e ! (count_rows e - 1)))"
    using n by (simp add: address_match_def Let_def)
  with last_effective_row_last [OF assms(1)] last_effective_row_last [OF assms(2)]
  show ?thesis by simp
qed

text \<open>
  Two addresses that differ in every row before the last effective one, and in what
  follows the sentinel, match; two addresses that agree in every row but the last
  effective one do not.
\<close>

theorem address_match_suffix_only_witness:
  "effective_rows
     [\<lparr>s_xid = \<lparr>xid_type = 1, xid_id = replicate 20 7\<rparr>, s_edge = 0\<rparr>,
      \<lparr>s_xid = \<lparr>xid_type = 2, xid_id = replicate 20 9\<rparr>, s_edge = 1\<rparr>,
      \<lparr>s_xid = \<lparr>xid_type = 0, xid_id = replicate 20 0\<rparr>, s_edge = 0\<rparr>,
      \<lparr>s_xid = \<lparr>xid_type = 5, xid_id = replicate 20 3\<rparr>, s_edge = 0\<rparr>] \<noteq> [] \<and>
   effective_rows
     [\<lparr>s_xid = \<lparr>xid_type = 2, xid_id = replicate 20 9\<rparr>, s_edge = 4\<rparr>,
      \<lparr>s_xid = \<lparr>xid_type = 0, xid_id = replicate 20 0\<rparr>, s_edge = 0\<rparr>,
      \<lparr>s_xid = \<lparr>xid_type = 0, xid_id = replicate 20 0\<rparr>, s_edge = 0\<rparr>,
      \<lparr>s_xid = \<lparr>xid_type = 0, xid_id = replicate 20 0\<rparr>, s_edge = 0\<rparr>] \<noteq> [] \<and>
   address_match
     (Sockaddr_xia
       [\<lparr>s_xid = \<lparr>xid_type = 1, xid_id = replicate 20 7\<rparr>, s_edge = 0\<rparr>,
        \<lparr>s_xid = \<lparr>xid_type = 2, xid_id = replicate 20 9\<rparr>, s_edge = 1\<rparr>,
        \<lparr>s_xid = \<lparr>xid_type = 0, xid_id = replicate 20 0\<rparr>, s_edge = 0\<rparr>,
        \<lparr>s_xid = \<lparr>xid_type = 5, xid_id = replicate 20 3\<rparr>, s_edge = 0\<rparr>]) 100
     (Sockaddr_xia
       [\<lparr>s_xid = \<lparr>xid_type = 2, xid_id = replicate 20 9\<rparr>, s_edge = 4\<rparr>,
        \<lparr>s_xid = \<lparr>xid_type = 0, xid_id = replicate 20 0\<rparr>, s_edge = 0\<rparr>,
        \<lparr>s_xid = \<lparr>xid_type = 0, xid_id = replicate 20 0\<rparr>, s_edge = 0\<rparr>,
        \<lparr>s_xid = \<lparr>xid_type = 0, xid_id = replicate 20 0\<rparr>, s_edge = 0\<rparr>]) 100 = Inr True \<and>
   address_match
     (Sockaddr_xia
       [\<lparr>s_xid = \<lparr>xid_type = 1, xid_id = replicate 20 7\<rparr>, s_edge = 0\<rparr>,
        \<lparr>s_xid = \<lparr>xid_type = 2, xid_id = replicate 20 9\<rparr>, s_edge = 1\<rparr>,
        \<lparr>s_xid = \<lparr>xid_type = 0, xid_id = replicate 20 0\<rparr>, s_edge = 0\<rparr>,
        \<lparr>s_xid = \<lparr>xid_type = 5, xid_id = replicate 20 3\<rparr>, s_edge = 0\<rparr>]) 100
     (Sockaddr_xia
       [\<lparr>s_xid = \<lparr>xid_type = 1, xid_id = replicate 20 7\<rparr>, s_edge = 0\<rparr>,
        \<lparr>s_xid = \<lparr>xid_type = 2, xid_id = replicate 20 8\<rparr>, s_edge = 1\<rparr>,
        \<lparr>s_xid = \<lparr>xid_type = 0, xid_id = replicate 20 0\<rparr>, s_edge = 0\<rparr>,
        \<lparr>s_xid = \<lparr>xid_type = 0, xid_id = replicate 20 0\<rparr>, s_edge = 0\<rparr>]) 100 = Inr False"
  using address_match_suffix_only
    [of "[\<lparr>s_xid = \<lparr>xid_type = 1, xid_id = replicate 20 7\<rparr>, s_edge = 0\<rparr>,
          \<lparr>s_xid = \<lparr>xid_type = 2, xid_id = replicate 20 9\<rparr>, s_edge = 1\<rparr>,
          \<lparr>s_xid = \<lparr>xid_type = 0, xid_id = replicate 20 0\<rparr>, s_edge = 0\<rparr>,
          \<lparr>s_xid = \<lparr>xid_type = 5, xid_id = replicate 20 3\<rparr>, s_edge = 0\<rparr>]"
        "[\<lparr>s_xid = \<lparr>xid_type = 1, xid_id = replicate 20 7\<rparr>, s_edge = 0\<rparr>,
          \<lparr>s_xid = \<lparr>xid_type = 2, xid_id = replicate 20 8\<rparr>, s_edge = 1\<rparr>,
          \<lparr>s_xid = \<lparr>xid_type = 0, xid_id = replicate 20 0\<rparr>, s_edge = 0\<rparr>,
          \<lparr>s_xid = \<lparr>xid_type = 0, xid_id = replicate 20 0\<rparr>, s_edge = 0\<rparr>]" 100 100]
  using address_match_suffix_only
    [of "[\<lparr>s_xid = \<lparr>xid_type = 1, xid_id = replicate 20 7\<rparr>, s_edge = 0\<rparr>,
          \<lparr>s_xid = \<lparr>xid_type = 2, xid_id = replicate 20 9\<rparr>, s_edge = 1\<rparr>,
          \<lparr>s_xid = \<lparr>xid_type = 0, xid_id = replicate 20 0\<rparr>, s_edge = 0\<rparr>,
          \<lparr>s_xid = \<lparr>xid_type = 5, xid_id = replicate 20 3\<rparr>, s_edge = 0\<rparr>]"
        "[\<lparr>s_xid = \<lparr>xid_type = 2, xid_id = replicate 20 9\<rparr>, s_edge = 4\<rparr>,
          \<lparr>s_xid = \<lparr>xid_type = 0, xid_id = replicate 20 0\<rparr>, s_edge = 0\<rparr>,
          \<lparr>s_xid = \<lparr>xid_type = 0, xid_id = replicate 20 0\<rparr>, s_edge = 0\<rparr>,
          \<lparr>s_xid = \<lparr>xid_type = 0, xid_id = replicate 20 0\<rparr>, s_edge = 0\<rparr>]" 100 100]
  by (simp add: effective_rows_def xia_is_nat_def XIDTYPE_NAT_def)

text \<open>
  C6. When the family tags of the two addresses differ, \<open>address_match\<close> does not return
  a truth value: the assertion on the families fails and the process is aborted.
\<close>

theorem address_match_cross_family_fatal:
  assumes "sa_family addr \<noteq> sa_family expected"
  shows "address_match addr addr_len expected exp_len = Inl Assertion_failed"
  using assms by (simp add: address_match_def)

theorem address_match_cross_family_fatal_witness:
  "sa_family (Sockaddr_in [2, 0, 0, 80, 10, 0, 0, 1, 0, 0, 0, 0, 0, 0, 0, 0]) \<noteq>
     sa_family (Sockaddr_xia [\<lparr>s_xid = \<lparr>xid_type = 2, xid_id = replicate 20 9\<rparr>, s_edge = 4\<rparr>,
                              \<lparr>s_xid = \<lparr>xid_type = 0, xid_id = replicate 20 0\<rparr>, s_edge = 0\<rparr>]) \<and>
   address_match (Sockaddr_in [2, 0, 0, 80, 10, 0, 0, 1, 0, 0, 0, 0, 0, 0, 0, 0]) 16
     (Sockaddr_xia [\<lparr>s_xid = \<lparr>xid_type = 2, xid_id = replicate 20 9\<rparr>, s_edge = 4\<rparr>,
                    \<lparr>s_xid = \<lparr>xid_type = 0, xid_id = replicate 20 0\<rparr>, s_edge = 0\<rparr>]) 16
     = Inl Assertion_failed"
  using address_match_cross_family_fatal
    [of "Sockaddr_in [2, 0, 0, 80, 10, 0, 0, 1, 0, 0, 0, 0, 0, 0, 0, 0]"
        "Sockaddr_xia [\<lparr>s_xid = \<lparr>xid_type = 2, xid_id = replicate 20 9\<rparr>, s_edge = 4\<rparr>,
                       \<lparr>s_xid = \<lparr>xid_type = 0, xid_id = replicate 20 0\<rparr>, s_edge = 0\<rparr>]" 16 16]
  by simp

text \<open>
  C7. When one of two hierarchical addresses has no effective row (its first row is
  already the sentinel, see \<open>effective_rows_Nil_iff\<close>), \<open>address_match\<close> returns no truth
  value: the assertion \<^verbatim>\<open>addr_n > 0 && exp_n > 0\<close> fails and the process is aborted.
\<close>

theorem address_match_zero_rows_fatal:
  assumes "effective_rows a = [] \<or> effective_rows e = []"
  shows "address_match (Sockaddr_xia a) addr_len (Sockaddr_xia e) exp_len = Inl Assertion_failed"
proof -
  from assms have "count_rows a = 0 \<or> count_rows e = 0"
    by (auto simp: count_rows_effective)
  then show ?thesis by (auto simp: address_match_def Let_def)
qed

theorem address_match_zero_rows_fatal_witness:
  "(effective_rows [\<lparr>s_xid = \<lparr>xid_type = 0, xid_id = replicate 20 0\<rparr>, s_edge = 0\<rparr>,
                    \<lparr>s_xid = \<lparr>xid_type = 2, xid_id = replicate 20 9\<rparr>, s_edge = 0\<rparr>] = [] \<or>
    effective_rows [\<lparr>s_xid = \<lparr>xid_type = 2, xid_id = replicate 20 9\<rparr>, s_edge = 0\<rparr>,
                    \<lparr>s_xid = \<lparr>xid_type = 0, xid_id = replicate 20 0\<rparr>, s_edge = 0\<rparr>] = []) \<and>
   address_match
     (Sockaddr_xia [\<lparr>s_xid = \<lparr>xid_type = 0, xid_id = replicate 20 0\<rparr>, s_edge = 0\<rparr>,
                    \<lparr>s_xid = \<lparr>xid_type = 2, xid_id = replicate 20 9\<rparr>, s_edge = 0\<rparr>]) 0
     (Sockaddr_xia [\<lparr>s_xid = \<lparr>xid_type = 2, xid_id = replicate 20 9\<rparr>, s_edge = 0\<rparr>,
                    \<lparr>s_xid = \<lparr>xid_type = 0, xid_id = replicate 20 0\<rparr>, s_edge = 0\<rparr>]) 0
     = Inl Assertion_failed"
  using address_match_zero_rows_fatal
    [of "[\<lparr>s_xid = \<lparr>xid_type = 0, xid_id = replicate 20 0\<rparr>, s_edge = 0\<rparr>,
          \<lparr>s_xid = \<lparr>xid_type = 2, xid_id = replicate 20 9\<rparr>, s_edge = 0\<rparr>]"
        "[\<lparr>s_xid = \<lparr>xid_type = 2, xid_id = replicate 20 9\<rparr>, s_edge = 0\<rparr>,
          \<lparr>s_xid = \<lparr>xid_type = 0, xid_id = replicate 20 0\<rparr>, s_edge = 0\<rparr>]" 0 0]
  by (simp add: effective_rows_def xia_is_nat_def XIDTYPE_NAT_def)

section \<open>A datagram transport without loss\<close>

lemma call_hook_fields [simp]:
  "copy (call_hook f w) = copy w" "err_out (call_hook f w) = err_out w"
  "awaited (hist (call_hook f w)) = awaited (hist w)"
  by (simp_all add: call_hook_def)



lemma c_int_id: "- INT_MAX - 1 \<le> x \<Longrightarrow> x \<le> INT_MAX \<Longrightarrow> c_int x = x"
  by (simp add: c_int_def INT_MAX_def)








section \<open>A stream transport without loss\<close>









section \<open>The transfer engine: claims\<close>






section \<open>The two receivers: claims\<close>

text \<open>
  C3. Fatal on wrong peer. In \<open>recv_write\<close>, when the wait finds the socket readable and
  the datagram received comes from an address for which \<open>address_match\<close> against the
  expected peer does not return true (it returns false, or fails itself), the process is
  ended by a failed assertion, and at that moment the mirror file and \<^verbatim>\<open>stderr\<close> are as
  they were before the call: no byte of the datagram has been written.
\<close>

theorem recv_write_wrong_peer_fatal:
  assumes "net_select nt (hist w) \<lparr>tv_sec = 2, tv_usec = 0\<rparr> = rc" and "rc > 0"
    and "0 \<le> n_sent"
    and "net_recvfrom nt (Ev_select rc # hist w) (nat n_sent) = Datagram payload src len"
    and "address_match src len expected_src exp_src_len \<noteq> Inr True"
  shows "\<exists>w'. recv_write nt w expected_src exp_src_len n_sent = Inl (Assertion_failed, w') \<and>
              copy w' = copy w \<and> err_out w' = err_out w"
proof (cases "address_match src len expected_src exp_src_len")
  case (Inl e)
  then have "e = Assertion_failed"
    by (auto simp: address_match_def Let_def split: if_splits sa_family_t.splits)
  with Inl assms(1-4) show ?thesis
    by (simp add: recv_write_def Let_def)
next
  case (Inr ok)
  with assms(5) have "\<not> ok" by simp
  with Inr assms(1-4) show ?thesis
    by (simp add: recv_write_def Let_def)
qed

theorem recv_write_wrong_peer_fatal_witness:
  "net_select (short_net [1, 2, 3] inet_other 16 0) (hist start_world)
     \<lparr>tv_sec = 2, tv_usec = 0\<rparr> = 1 \<and>
   (0::int) < 1 \<and> (0::int) \<le> 3 \<and>
   net_recvfrom (short_net [1, 2, 3] inet_other 16 0) (Ev_select 1 # hist start_world) (nat 3) =
     Datagram [1, 2, 3] inet_other 16 \<and>
   address_match inet_other 16 inet_peer 16 \<noteq> Inr True \<and>
   (\<exists>w'. recv_write (short_net [1, 2, 3] inet_other 16 0) start_world inet_peer 16 3 =
            Inl (Assertion_failed, w') \<and>
          copy w' = copy start_world \<and> err_out w' = err_out start_world)"
  using recv_write_wrong_peer_fatal
    [of "short_net [1, 2, 3] inet_other 16 0" start_world 1 3 "[1, 2, 3]" inet_other 16
        inet_peer 16]
  by (simp add: short_net_def inet_other_def inet_peer_def address_match_def memcmp_eq_def)

text \<open>
  C10. No length check in \<open>recv_write\<close>. When the datagram received comes from a matching
  address and carries fewer bytes than \<open>n_sent\<close>, the call returns normally, prints
  nothing, and appends to the mirror file exactly the bytes received.
\<close>

theorem recv_write_short_datagram_accepted:
  assumes "net_select nt (hist w) \<lparr>tv_sec = 2, tv_usec = 0\<rparr> = rc" and "rc > 0"
    and "net_recvfrom nt (Ev_select rc # hist w) (nat n_sent) = Datagram payload src len"
    and "address_match src len expected_src exp_src_len = Inr True"
    and "int (length payload) < n_sent"
  shows "recv_write nt w expected_src exp_src_len n_sent =
           Inr (w\<lparr>hist := Ev_recvfrom (nat n_sent) (int (length payload)) # Ev_select rc # hist w,
                  copy := copy w @ [payload]\<rparr>)"
  using assms by (simp add: recv_write_def Let_def)

theorem recv_write_short_datagram_accepted_witness:
  "net_select (short_net [1, 2, 3] inet_peer 16 0) (hist start_world)
     \<lparr>tv_sec = 2, tv_usec = 0\<rparr> = 1 \<and>
   (0::int) < 1 \<and>
   net_recvfrom (short_net [1, 2, 3] inet_peer 16 0) (Ev_select 1 # hist start_world) (nat 10) =
     Datagram [1, 2, 3] inet_peer 16 \<and>
   address_match inet_peer 16 inet_peer 16 = Inr True \<and>
   int (length [1 :: byte, 2, 3]) < 10 \<and>
   recv_write (short_net [1, 2, 3] inet_peer 16 0) start_world inet_peer 16 10 =
     Inr \<lparr>copy = [[1, 2, 3]], err_out = [], hist = [Ev_recvfrom 10 3, Ev_select 1]\<rparr>"
  using recv_write_short_datagram_accepted
    [of "short_net [1, 2, 3] inet_peer 16 0" start_world 1 10 "[1, 2, 3]" inet_peer 16
        inet_peer 16]
  by (simp add: short_net_def inet_peer_def address_match_def memcmp_eq_def start_world_def)

lemma read_write_loop_result:
  "read_write_loop nt w n_sent n_read out = (w', r) \<Longrightarrow> n_read \<le> n_sent \<Longrightarrow>
   \<exists>evs. hist w' = rev evs @ hist w \<and>
     reads_follow nt (hist w) (nat (n_sent - n_read)) evs \<and> copy w' = copy w \<and>
     (case r of
        None \<Rightarrow> (\<exists>e \<in> set evs. gave_up e) \<and> err_out w' = err_out w @ ''.''
      | Some (n, buf) \<Rightarrow>
          (\<forall>e \<in> set evs. \<not> gave_up e) \<and> err_out w' = err_out w \<and>
          buf = out @ concat (map read_data evs) \<and>
          n = n_read + int (length (concat (map read_data evs))) \<and> n = n_sent)"
proof (induction nt w n_sent n_read out arbitrary: w' r rule: read_write_loop.induct)
  case (1 nt w n_sent n_read out)
  note run = "1.prems"(1) and le = "1.prems"(2)
  show ?case
  proof (cases "n_sent > n_read")
    case False
    with run have "w' = w" "r = Some (n_read, out)"
      by (simp_all add: read_write_loop.simps [of nt w n_sent n_read out])
    with False le show ?thesis by (intro exI [of _ "[]"]) simp
  next
    case True
    define req where "req = nat (n_sent - n_read)"
    define res where "res = sys_read (net_read nt (hist w) req) req"
    define e where "e = Ev_read req (fst res) (snd res)"
    define w1 where "w1 = w\<lparr>hist := e # hist w\<rparr>"
    from True have rq: "0 < req" by (simp add: req_def)
    have len: "fst res = int (length (snd res)) \<or> (fst res = - 1 \<and> snd res = [])"
      unfolding res_def by (cases "net_read nt (hist w) req") simp_all
    have bound: "fst res \<le> int req"
      unfolding res_def by (cases "net_read nt (hist w) req") simp_all
    have sr: "(fst res, snd res) = sys_read (net_read nt (hist w) req) req"
      by (simp add: res_def)
    show ?thesis
    proof (cases "fst res \<le> 0")
      case gu: True
      with True run have "w' = w1\<lparr>err_out := err_out w1 @ ''.''\<rparr>" "r = None"
        by (simp_all add: read_write_loop.simps [of nt w n_sent n_read out] Let_def
              req_def res_def w1_def e_def)
      moreover have "reads_follow nt (hist w) req [e]"
        unfolding e_def using rq sr gu by simp
      moreover have "gave_up e" using gu by (simp add: e_def)
      ultimately show ?thesis
        by (intro exI [of _ "[e]"]) (simp add: w1_def req_def)
    next
      case False
      with True run
      have rec: "read_write_loop nt w1 n_sent (n_read + fst res) (out @ snd res) = (w', r)"
        by (simp add: read_write_loop.simps [of nt w n_sent n_read out] Let_def
              req_def res_def w1_def e_def)
      from False len have l: "fst res = int (length (snd res))" by auto
      from bound True have le1: "n_read + fst res \<le> n_sent" by (simp add: req_def)
      have w1': "w1 = w\<lparr>hist := Ev_read req (fst res) (snd res) # hist w\<rparr>"
        by (simp add: w1_def e_def)
      from "1.IH" [OF True req_def res_def w1' False rec le1]
      obtain evs where evs: "hist w' = rev evs @ hist w1"
        "reads_follow nt (hist w1) (nat (n_sent - (n_read + fst res))) evs"
        "copy w' = copy w1"
        "case r of
           None \<Rightarrow> (\<exists>e \<in> set evs. gave_up e) \<and> err_out w' = err_out w1 @ ''.''
         | Some (n, buf) \<Rightarrow>
             (\<forall>e \<in> set evs. \<not> gave_up e) \<and> err_out w' = err_out w1 \<and>
             buf = (out @ snd res) @ concat (map read_data evs) \<and>
             n = (n_read + fst res) + int (length (concat (map read_data evs))) \<and> n = n_sent"
        by blast
      have rem: "nat (n_sent - (n_read + fst res)) = req - length (snd res)"
        by (simp add: req_def l)
      have rf: "reads_follow nt (hist w) req (e # evs)"
        unfolding e_def using rq sr False evs(2) [unfolded rem]
        by (simp add: w1_def e_def)
      have ng: "\<not> gave_up e" using False by (simp add: e_def)
      have rd: "read_data e = snd res" by (simp add: e_def)
      show ?thesis
      proof (intro exI [of _ "e # evs"] conjI)
        show "hist w' = rev (e # evs) @ hist w" using evs(1) by (simp add: w1_def)
        show "reads_follow nt (hist w) (nat (n_sent - n_read)) (e # evs)"
          using rf by (simp only: req_def)
        show "copy w' = copy w" using evs(3) by (simp add: w1_def)
        show "case r of
                None \<Rightarrow> (\<exists>x \<in> set (e # evs). gave_up x) \<and> err_out w' = err_out w @ ''.''
              | Some (n, buf) \<Rightarrow>
                  (\<forall>x \<in> set (e # evs). \<not> gave_up x) \<and> err_out w' = err_out w \<and>
                  buf = out @ concat (map read_data (e # evs)) \<and>
                  n = n_read + int (length (concat (map read_data (e # evs)))) \<and> n = n_sent"
          using evs(4) ng rd l by (auto simp: w1_def split: option.splits)
      qed
    qed
  qed
qed

text \<open>
  C8. The stream receiver. For every \<open>n_sent \<ge> 0\<close> and whatever the transport does,
  \<open>read_write\<close> returns normally, and between the call and the return it does what
  \<open>reads_follow\<close> describes (\<open>evs\<close>, oldest first): it reads again and again, each time
  asking for the bytes still missing from \<open>n_sent\<close> and taking what \<open>net_read\<close> answers,
  until a read returns zero or less or the bytes obtained are \<open>n_sent\<close>, and it does
  nothing more. If a read returned zero or less, nothing is written to the mirror file and
  the marker "." is printed. Otherwise the bytes the reads delivered, in order, are
  exactly \<open>n_sent\<close> bytes and are written to the mirror file by one \<^verbatim>\<open>fwrite\<close>, and
  nothing is printed.
\<close>

theorem read_write_semantics:
  assumes "0 \<le> n_sent"
  shows "\<exists>w' evs. read_write nt w n_sent = Inr w' \<and> hist w' = rev evs @ hist w \<and>
           reads_follow nt (hist w) (nat n_sent) evs \<and>
           (if \<exists>e \<in> set evs. gave_up e
            then copy w' = copy w \<and> err_out w' = err_out w @ ''.''
            else copy w' = copy w @ [concat (map read_data evs)] \<and>
                 int (length (concat (map read_data evs))) = n_sent \<and>
                 err_out w' = err_out w)"
proof -
  obtain w1 r where lp: "read_write_loop nt w n_sent 0 [] = (w1, r)"
    by (cases "read_write_loop nt w n_sent 0 []")
  from read_write_loop_result [OF lp assms]
  obtain evs where evs: "hist w1 = rev evs @ hist w"
    "reads_follow nt (hist w) (nat (n_sent - 0)) evs" "copy w1 = copy w"
    "case r of
       None \<Rightarrow> (\<exists>e \<in> set evs. gave_up e) \<and> err_out w1 = err_out w @ ''.''
     | Some (n, buf) \<Rightarrow>
         (\<forall>e \<in> set evs. \<not> gave_up e) \<and> err_out w1 = err_out w \<and>
         buf = [] @ concat (map read_data evs) \<and>
         n = 0 + int (length (concat (map read_data evs))) \<and> n = n_sent"
    by blast
  show ?thesis
  proof (cases r)
    case None
    with evs lp show ?thesis
      by (intro exI [of _ w1] exI [of _ evs]) (simp add: read_write_def)
  next
    case (Some p)
    obtain n buf where p: "p = (n, buf)" by (cases p)
    with Some evs lp show ?thesis
      by (intro exI [of _ "w1\<lparr>copy := copy w1 @ [take (nat n) buf]\<rparr>"] exI [of _ evs])
         (auto simp: read_write_def)
  qed
qed

text \<open>
  With a peer that echoes five bytes in pieces of two, three reads collect them and one
  write puts them into the mirror file; with a peer that has closed, the first read
  returns zero and only the marker is printed.
\<close>

theorem read_write_semantics_witness:
  "(0::int) \<le> 5 \<and>
   read_write (echo_net inet_peer 16 2)
     \<lparr>copy = [], err_out = [], hist = [Ev_write [1, 2, 3, 4, 5] 5]\<rparr> 5 =
     Inr \<lparr>copy = [[1, 2, 3, 4, 5]], err_out = [],
          hist = [Ev_read 1 1 [5], Ev_read 3 2 [3, 4], Ev_read 5 2 [1, 2],
                  Ev_write [1, 2, 3, 4, 5] 5]\<rparr> \<and>
   reads_follow (echo_net inet_peer 16 2) [Ev_write [1, 2, 3, 4, 5] 5] 5
     [Ev_read 5 2 [1, 2], Ev_read 3 2 [3, 4], Ev_read 1 1 [5]] \<and>
   read_write silent_net
     \<lparr>copy = [], err_out = [], hist = [Ev_write [1, 2, 3, 4, 5] 5]\<rparr> 5 =
     Inr \<lparr>copy = [], err_out = ''.'',
          hist = [Ev_read 5 0 [], Ev_write [1, 2, 3, 4, 5] 5]\<rparr> \<and>
   (\<exists>w' evs. read_write (echo_net inet_peer 16 2)
              \<lparr>copy = [], err_out = [], hist = [Ev_write [1, 2, 3, 4, 5] 5]\<rparr> 5 = Inr w' \<and>
            hist w' = rev evs @ hist \<lparr>copy = [], err_out = [], hist = [Ev_write [1, 2, 3, 4, 5] 5]\<rparr> \<and>
            reads_follow (echo_net inet_peer 16 2)
              (hist \<lparr>copy = [], err_out = [], hist = [Ev_write [1, 2, 3, 4, 5] 5]\<rparr>) (nat 5) evs \<and>
            (if \<exists>e \<in> set evs. gave_up e
             then copy w' = copy \<lparr>copy = [], err_out = [], hist = [Ev_write [1, 2, 3, 4, 5] 5]\<rparr> \<and>
                  err_out w' = err_out \<lparr>copy = [], err_out = [], hist = [Ev_write [1, 2, 3, 4, 5] 5]\<rparr> @ ''.''
             else copy w' = copy \<lparr>copy = [], err_out = [], hist = [Ev_write [1, 2, 3, 4, 5] 5]\<rparr> @
                              [concat (map read_data evs)] \<and>
                  int (length (concat (map read_data evs))) = 5 \<and>
                  err_out w' = err_out \<lparr>copy = [], err_out = [], hist = [Ev_write [1, 2, 3, 4, 5] 5]\<rparr>))"
proof -
  have a: "read_write (echo_net inet_peer 16 2)
     \<lparr>copy = [], err_out = [], hist = [Ev_write [1, 2, 3, 4, 5] 5]\<rparr> 5 =
     Inr \<lparr>copy = [[1, 2, 3, 4, 5]], err_out = [],
          hist = [Ev_read 1 1 [5], Ev_read 3 2 [3, 4], Ev_read 5 2 [1, 2],
                  Ev_write [1, 2, 3, 4, 5] 5]\<rparr>"
    by (simp add: read_write_def read_write_loop.simps echo_net_def Let_def)
  have b: "read_write silent_net
     \<lparr>copy = [], err_out = [], hist = [Ev_write [1, 2, 3, 4, 5] 5]\<rparr> 5 =
     Inr \<lparr>copy = [], err_out = ''.'',
          hist = [Ev_read 5 0 [], Ev_write [1, 2, 3, 4, 5] 5]\<rparr>"
    by (simp add: read_write_def read_write_loop.simps silent_net_def Let_def)
  have c: "reads_follow (echo_net inet_peer 16 2) [Ev_write [1, 2, 3, 4, 5] 5] 5
     [Ev_read 5 2 [1, 2], Ev_read 3 2 [3, 4], Ev_read 1 1 [5]]"
    by (simp add: echo_net_def)
  from a b c read_write_semantics
    [of 5 "echo_net inet_peer 16 2" "\<lparr>copy = [], err_out = [], hist = [Ev_write [1, 2, 3, 4, 5] 5]\<rparr>"]
  show ?thesis by simp
qed

text \<open>
  C4. Tolerated datagram loss. Consider a pass of the datagram loop in which the chunk
  \<open>buf\<close> is read without error and sent, the state after the send is \<open>st1\<close>, and the
  checkpoint is due (\<open>count st1 = n_times\<close>). If the wait of two seconds returns 0, then
  \<open>recv_write\<close> returns normally with the world \<open>lost_batch\<close>: the marker "." has been
  printed and the mirror file is as before. The pass ends normally with both counters
  zero, and the loop goes on from that state unless the end of the file was reached.
\<close>

theorem datagram_timeout_tolerated:
  assumes "fread chunk_size (orig st) = (buf, rest, at_end)" and "\<not> (at_end \<and> bad)"
    and "datagram_send nt srv srv_len buf (st\<lparr>orig := rest\<rparr>) = Inr st1"
    and "count st1 = n_times"
    and "net_select nt (hist (call_hook f (io st1))) \<lparr>tv_sec = 2, tv_usec = 0\<rparr> = 0"
  shows "recv_write nt (call_hook f (io st1)) srv srv_len (bytes_sent st1) =
           Inr (lost_batch (call_hook f (io st1))) \<and>
         copy (lost_batch (call_hook f (io st1))) = copy (io st1) \<and>
         datagram_body nt bad srv srv_len chunk_size n_times f st =
           Inr (st1\<lparr>io := lost_batch (call_hook f (io st1)), count := 0, bytes_sent := 0\<rparr>,
                at_end) \<and>
         datagram_loop nt bad srv srv_len chunk_size n_times f st =
           (if at_end
            then Some (Inr (st1\<lparr>io := lost_batch (call_hook f (io st1)), count := 0,
                                bytes_sent := 0\<rparr>))
            else datagram_loop nt bad srv srv_len chunk_size n_times f
                   (st1\<lparr>io := lost_batch (call_hook f (io st1)), count := 0,
                         bytes_sent := 0\<rparr>))"
proof -
  define w2 where "w2 = lost_batch (call_hook f (io st1))"
  have r: "recv_write nt (call_hook f (io st1)) srv srv_len (bytes_sent st1) = Inr w2"
    using assms(5) by (simp add: recv_write_def Let_def w2_def lost_batch_def)
  have c: "datagram_checkpoint nt srv srv_len n_times f st1 =
             Inr (st1\<lparr>io := w2, count := 0, bytes_sent := 0\<rparr>)"
    using assms(4) r by (simp add: datagram_checkpoint_def and_then_def)
  have b: "datagram_body nt bad srv srv_len chunk_size n_times f st =
             Inr (st1\<lparr>io := w2, count := 0, bytes_sent := 0\<rparr>, at_end)"
    using assms(1-3) c by (simp add: datagram_body_def and_then_def)
  have l: "datagram_loop nt bad srv srv_len chunk_size n_times f st =
             (if at_end then Some (Inr (st1\<lparr>io := w2, count := 0, bytes_sent := 0\<rparr>))
              else datagram_loop nt bad srv srv_len chunk_size n_times f
                     (st1\<lparr>io := w2, count := 0, bytes_sent := 0\<rparr>))"
    by (subst datagram_loop.simps) (simp add: b)
  have "copy w2 = copy (io st1)" by (simp add: w2_def lost_batch_def)
  with r b l show ?thesis unfolding w2_def by simp
qed

theorem datagram_timeout_tolerated_witness:
  "fread 4 (orig \<lparr>orig = [1, 2, 3, 4, 5], count = 0, bytes_sent = 0, io = start_world\<rparr>) =
     ([1, 2, 3, 4], [5], False) \<and>
   \<not> (False \<and> False) \<and>
   datagram_send silent_net inet_peer 16 [1, 2, 3, 4]
     (\<lparr>orig = [1, 2, 3, 4, 5], count = 0, bytes_sent = 0, io = start_world\<rparr>\<lparr>orig := [5]\<rparr>) =
     Inr \<lparr>orig = [5], count = 1, bytes_sent = 4,
          io = \<lparr>copy = [], err_out = [], hist = [Ev_sendto [1, 2, 3, 4] 4]\<rparr>\<rparr> \<and>
   count \<lparr>orig = [5], count = 1, bytes_sent = 4,
          io = \<lparr>copy = [], err_out = [], hist = [Ev_sendto [1, 2, 3, 4] 4]\<rparr>\<rparr> = 1 \<and>
   net_select silent_net
     (hist (call_hook True (io \<lparr>orig = [5], count = 1, bytes_sent = 4,
          io = \<lparr>copy = [], err_out = [], hist = [Ev_sendto [1, 2, 3, 4] 4]\<rparr>\<rparr>)))
     \<lparr>tv_sec = 2, tv_usec = 0\<rparr> = 0 \<and>
   datagram_body silent_net False inet_peer 16 4 1 True
     \<lparr>orig = [1, 2, 3, 4, 5], count = 0, bytes_sent = 0, io = start_world\<rparr> =
     Inr (\<lparr>orig = [5], count = 0, bytes_sent = 0,
           io = \<lparr>copy = [], err_out = ''.'',
                  hist = [Ev_select 0, Ev_mark, Ev_sendto [1, 2, 3, 4] 4]\<rparr>\<rparr>, False) \<and>
   datagram_loop silent_net False inet_peer 16 4 1 True
     \<lparr>orig = [1, 2, 3, 4, 5], count = 0, bytes_sent = 0, io = start_world\<rparr> =
   datagram_loop silent_net False inet_peer 16 4 1 True
     \<lparr>orig = [5], count = 0, bytes_sent = 0,
           io = \<lparr>copy = [], err_out = ''.'',
                  hist = [Ev_select 0, Ev_mark, Ev_sendto [1, 2, 3, 4] 4]\<rparr>\<rparr>"
  using datagram_timeout_tolerated
    [of 4 "\<lparr>orig = [1, 2, 3, 4, 5], count = 0, bytes_sent = 0, io = start_world\<rparr>"
        "[1, 2, 3, 4]" "[5]" False False silent_net inet_peer 16
        "\<lparr>orig = [5], count = 1, bytes_sent = 4,
          io = \<lparr>copy = [], err_out = [], hist = [Ev_sendto [1, 2, 3, 4] 4]\<rparr>\<rparr>" 1 True]
  by (simp add: fread_def datagram_send_def send_packet_def and_then_def silent_net_def
        start_world_def call_hook_def lost_batch_def c_int_def Let_def)

section \<open>Short writes on the stream transport\<close>

lemma no_short_write_simps [simp]:
  "no_short_write []"
  "no_short_write (e # h) \<longleftrightarrow> \<not> short_write e \<and> no_short_write h"
  "no_short_write (h1 @ h2) \<longleftrightarrow> no_short_write h1 \<and> no_short_write h2"
  by (auto simp: no_short_write_def)

lemma reads_no_short_write: "\<forall>e \<in> set evs. is_read e \<Longrightarrow> no_short_write evs"
proof -
  have "is_read e \<Longrightarrow> \<not> short_write e" for e by (cases e) simp_all
  then show "\<forall>e \<in> set evs. is_read e \<Longrightarrow> no_short_write evs"
    by (auto simp: no_short_write_def)
qed

lemma reads_follow_is_read:
  "reads_follow nt h remaining evs \<Longrightarrow> \<forall>e \<in> set (rev evs). is_read e"
  by (induction nt h remaining evs rule: reads_follow.induct) (auto split: if_splits)

lemma call_hook_no_short_write [simp]:
  "no_short_write (hist (call_hook f w)) = no_short_write (hist w)"
  by (simp add: call_hook_def)

lemma read_write_no_short_write:
  assumes "no_short_write (hist w)"
  shows "no_short_write (hist (world_of (read_write nt w n)))"
proof (cases "n < 0")
  case True
  then have "read_write_loop nt w n 0 [] = (w, Some (0, []))"
    by (subst read_write_loop.simps) simp
  with True assms show ?thesis by (simp add: read_write_def world_of_def)
next
  case False
  obtain w1 r where lp: "read_write_loop nt w n 0 [] = (w1, r)"
    by (cases "read_write_loop nt w n 0 []")
  from False have "0 \<le> n" by simp
  from read_write_loop_result [OF lp this]
  obtain evs where "hist w1 = rev evs @ hist w" "reads_follow nt (hist w) (nat (n - 0)) evs"
    by blast
  with assms have "no_short_write (hist w1)"
    by (simp add: reads_no_short_write [OF reads_follow_is_read])
  with lp show ?thesis
    by (auto simp: read_write_def world_of_def split: option.splits)
qed

lemma stream_body_no_short_write:
  assumes "no_short_write (hist (io st))"
  shows "case stream_body nt bad chunk_size n_times f st of
           Inl (e, w) \<Rightarrow> no_short_write (tl (hist w)) \<and>
                         (\<not> no_short_write (hist w) \<longrightarrow> e = Assertion_failed)
         | Inr (st', eof) \<Rightarrow> no_short_write (hist (io st'))"
proof -
  define buf where "buf = take chunk_size (orig st)"
  define st0 where "st0 = st\<lparr>orig := drop chunk_size (orig st)\<rparr>"
  define at_end where "at_end \<longleftrightarrow> length (orig st) < chunk_size"
  have body: "stream_body nt bad chunk_size n_times f st =
          (if at_end \<and> bad then Inl (Assertion_failed, io st)
           else and_then (stream_send nt buf st0)
                  (\<lambda>st1. and_then (stream_checkpoint nt n_times f st1) (\<lambda>st2. Inr (st2, at_end))))"
    by (simp add: stream_body_def fread_def buf_def st0_def at_end_def)
  show ?thesis
  proof (cases "at_end \<and> bad")
    case True
    with body assms show ?thesis by (cases "hist (io st)") auto
  next
    case False
    show ?thesis
    proof (cases "stream_send nt buf st0")
      case (Inl p)
      then obtain e w where p: "p = (e, w)" by (cases p)
      with Inl have "e = Assertion_failed" "tl (hist w) = hist (io st)"
        by (auto simp: stream_send_def Let_def st0_def split: if_splits)
      with Inl p body False assms show ?thesis by (simp add: and_then_def)
    next
      case (Inr st1)
      with assms have j1: "no_short_write (hist (io st1))"
        by (auto simp: stream_send_def Let_def st0_def split: if_splits)
      show ?thesis
      proof (cases "count st1 = n_times")
        case False
        with Inr body j1 \<open>\<not> (at_end \<and> bad)\<close> show ?thesis
          by (simp add: and_then_def stream_checkpoint_def)
      next
        case True
        from j1 have j2: "no_short_write (hist (call_hook f (io st1)))" by simp
        from read_write_no_short_write [OF j2, of nt "bytes_sent st1"]
        have j3: "no_short_write (hist (world_of
                    (read_write nt (call_hook f (io st1)) (bytes_sent st1))))" .
        show ?thesis
        proof (cases "read_write nt (call_hook f (io st1)) (bytes_sent st1)")
          case (Inl p)
          then obtain e w where p: "p = (e, w)" by (cases p)
          with Inl j3 have "no_short_write (hist w)" by (simp add: world_of_def)
          then have "no_short_write (tl (hist w))" by (cases "hist w") simp_all
          with \<open>no_short_write (hist w)\<close> Inl p Inr True body \<open>\<not> (at_end \<and> bad)\<close> show ?thesis
            by (simp add: and_then_def stream_checkpoint_def)
        next
          case (Inr w)
          with j3 have "no_short_write (hist w)" by (simp add: world_of_def)
          with Inr \<open>stream_send nt buf st0 = Inr st1\<close> True body \<open>\<not> (at_end \<and> bad)\<close>
          show ?thesis by (simp add: and_then_def stream_checkpoint_def)
        qed
      qed
    qed
  qed
qed

lemma stream_loop_no_short_write:
  assumes "stream_loop nt bad chunk_size n_times f st = Some r"
  shows "no_short_write (hist (io st)) \<longrightarrow>
     (case r of
        Inl (e, w) \<Rightarrow> no_short_write (tl (hist w)) \<and>
                      (\<not> no_short_write (hist w) \<longrightarrow> e = Assertion_failed)
      | Inr st' \<Rightarrow> no_short_write (hist (io st')))"
proof (rule stream_loop.raw_induct
    [where P = "\<lambda>nt bad chunk_size n_times f st r. no_short_write (hist (io st)) \<longrightarrow>
       (case r of
          Inl (e, w) \<Rightarrow> no_short_write (tl (hist w)) \<and>
                        (\<not> no_short_write (hist w) \<longrightarrow> e = Assertion_failed)
        | Inr st' \<Rightarrow> no_short_write (hist (io st')))", OF _ assms])
  fix loop nt bad chunk_size n_times f st r
  assume IH: "\<And>nt bad chunk_size n_times f st r.
          loop nt bad chunk_size n_times f st = Some r \<Longrightarrow>
          no_short_write (hist (io st)) \<longrightarrow>
          (case r of
             Inl (e, w) \<Rightarrow> no_short_write (tl (hist w)) \<and>
                           (\<not> no_short_write (hist w) \<longrightarrow> e = Assertion_failed)
           | Inr st' \<Rightarrow> no_short_write (hist (io st')))"
    and step: "(case stream_body nt bad chunk_size n_times f st of
                  Inl e \<Rightarrow> Some (Inl e)
                | Inr (st1, eof) \<Rightarrow>
                    if eof then Some (Inr st1)
                    else loop nt bad chunk_size n_times f st1) = Some r"
  show "no_short_write (hist (io st)) \<longrightarrow>
          (case r of
             Inl (e, w) \<Rightarrow> no_short_write (tl (hist w)) \<and>
                           (\<not> no_short_write (hist w) \<longrightarrow> e = Assertion_failed)
           | Inr st' \<Rightarrow> no_short_write (hist (io st')))"
  proof
    assume j: "no_short_write (hist (io st))"
    note b = stream_body_no_short_write [OF j, of nt bad chunk_size n_times f]
    show "case r of
            Inl (e, w) \<Rightarrow> no_short_write (tl (hist w)) \<and>
                          (\<not> no_short_write (hist w) \<longrightarrow> e = Assertion_failed)
          | Inr st' \<Rightarrow> no_short_write (hist (io st'))"
    proof (cases "stream_body nt bad chunk_size n_times f st")
      case (Inl p)
      with step have "r = Inl p" by simp
      with b Inl show ?thesis by simp
    next
      case (Inr q)
      obtain st1 eof where q: "q = (st1, eof)" by (cases q)
      from b Inr q have j1: "no_short_write (hist (io st1))" by simp
      show ?thesis
      proof (cases eof)
        case True
        with step Inr q have "r = Inr st1" by simp
        with j1 show ?thesis by simp
      next
        case False
        with step Inr q have "loop nt bad chunk_size n_times f st1 = Some r" by simp
        from IH [OF this] j1 show ?thesis by simp
      qed
    qed
  qed
qed

lemma stream_flush_no_short_write:
  assumes "no_short_write (hist (io st))"
  shows "no_short_write (hist (world_of (stream_flush nt f st)))"
proof (cases "count st \<noteq> 0")
  case True
  from assms have "no_short_write (hist (call_hook f (io st)))" by simp
  from read_write_no_short_write [OF this, of nt "bytes_sent st"] True
  show ?thesis by (simp add: stream_flush_def)
next
  case False
  with assms show ?thesis by (simp add: stream_flush_def world_of_def)
qed

lemma close_files_world: "world_of (close_files fs w) = w"
  by (simp add: close_files_def world_of_def)

lemma close_files_Inl: "close_files fs w = Inl (e, w') \<Longrightarrow> e = Assertion_failed"
  by (auto simp: close_files_def split: if_splits)

lemma stream_process_file_no_short_write:
  assumes "stream_process_file nt fs chunk_size n_times f = Some r"
  shows "no_short_write (tl (hist (world_of r))) \<and>
         (\<not> no_short_write (hist (world_of r)) \<longrightarrow> r = Inl (Assertion_failed, world_of r))"
proof (cases "orig_data fs")
  case None
  with assms show ?thesis
    by (auto simp: stream_process_file_def world_of_def start_world_def)
next
  case (Some data)
  show ?thesis
  proof (cases "\<not> copy_opens fs \<or> chunk_size < 0")
    case True
    with assms Some show ?thesis
      by (auto simp: stream_process_file_def world_of_def start_world_def split: if_splits)
  next
    case False
    define st0 where "st0 = \<lparr>orig = data, count = 0, bytes_sent = 0, io = start_world\<rparr>"
    from assms Some False obtain r0 where
      l: "stream_loop nt (orig_bad fs) (nat chunk_size) n_times f st0 = Some r0"
      and r: "r = and_then r0 (\<lambda>st. and_then (stream_flush nt f st) (close_files fs))"
      by (auto simp: stream_process_file_def st0_def split: option.splits)
    have "no_short_write (hist (io st0))" by (simp add: st0_def start_world_def)
    with stream_loop_no_short_write [OF l]
    have q: "case r0 of
               Inl (e, w) \<Rightarrow> no_short_write (tl (hist w)) \<and>
                             (\<not> no_short_write (hist w) \<longrightarrow> e = Assertion_failed)
             | Inr st' \<Rightarrow> no_short_write (hist (io st'))"
      by simp
    show ?thesis
    proof (cases r0)
      case (Inl p)
      obtain e w where p: "p = (e, w)" by (cases p)
      with Inl q r show ?thesis by (auto simp: and_then_def world_of_def)
    next
      case (Inr st)
      with q have j: "no_short_write (hist (io st))" by simp
      note fl = stream_flush_no_short_write [OF j, of nt f]
      show ?thesis
      proof (cases "stream_flush nt f st")
        case (Inl p)
        obtain e w where p: "p = (e, w)" by (cases p)
        with Inl fl have "no_short_write (hist w)" by (simp add: world_of_def)
        moreover then have "no_short_write (tl (hist w))" by (cases "hist w") simp_all
        ultimately show ?thesis using Inl p Inr r by (simp add: and_then_def world_of_def)
      next
        case (Inr w)
        with fl have jw: "no_short_write (hist w)" by (simp add: world_of_def)
        then have jt: "no_short_write (tl (hist w))" by (cases "hist w") simp_all
        from Inr \<open>r0 = Inr st\<close> r have "r = close_files fs w" by (simp add: and_then_def)
        with close_files_world [of fs w] jw jt show ?thesis by simp
      qed
    qed
  qed
qed

text \<open>
  C9. Partial stream writes are fatal. First, in a pass of the stream loop that reads a
  non-empty chunk without error, a \<^verbatim>\<open>write\<close> whose return value is not the number of
  bytes of the chunk ends the process by a failed assertion, with that write as the last
  event. Second, for every run of the stream entry point that ends, normally or not: no
  event of its history except possibly the last one is a short write, and if the history
  holds a short write at all, the run has ended by a failed assertion. So no run goes on
  after a partial write.
\<close>

theorem stream_partial_write_fatal:
  "(fread chunk_size (orig st) = (buf, rest, at_end) \<and> \<not> (at_end \<and> bad) \<and> buf \<noteq> [] \<and>
    net_write nt (hist (io st)) buf \<noteq> int (length buf) \<longrightarrow>
      stream_loop nt bad chunk_size n_times f st =
        Some (Inl (Assertion_failed,
                   (io st)\<lparr>hist := Ev_write buf (net_write nt (hist (io st)) buf) # hist (io st)\<rparr>))) \<and>
   (stream_process_file nt fs chunk_size' n_times f = Some r \<longrightarrow>
      no_short_write (tl (hist (world_of r))) \<and>
      (\<not> no_short_write (hist (world_of r)) \<longrightarrow> r = Inl (Assertion_failed, world_of r)))"
proof (intro conjI impI)
  assume a: "fread chunk_size (orig st) = (buf, rest, at_end) \<and> \<not> (at_end \<and> bad) \<and> buf \<noteq> [] \<and>
             net_write nt (hist (io st)) buf \<noteq> int (length buf)"
  then have fr: "fread chunk_size (orig st) = (buf, rest, at_end)"
    and ok: "\<not> (at_end \<and> bad)" by blast+
  from a have "stream_send nt buf (st\<lparr>orig := rest\<rparr>) =
               Inl (Assertion_failed,
                    (io st)\<lparr>hist := Ev_write buf (net_write nt (hist (io st)) buf) # hist (io st)\<rparr>)"
    by (simp add: stream_send_def Let_def)
  then have "stream_body nt bad chunk_size n_times f st =
                 Inl (Assertion_failed,
                      (io st)\<lparr>hist := Ev_write buf (net_write nt (hist (io st)) buf) # hist (io st)\<rparr>)"
    unfolding stream_body_def fr using ok by (auto simp: and_then_def)
  then show "stream_loop nt bad chunk_size n_times f st =
               Some (Inl (Assertion_failed,
                 (io st)\<lparr>hist := Ev_write buf (net_write nt (hist (io st)) buf) # hist (io st)\<rparr>))"
    by (subst stream_loop.simps) simp
next
  assume "stream_process_file nt fs chunk_size' n_times f = Some r"
  from stream_process_file_no_short_write [OF this]
  show "no_short_write (tl (hist (world_of r)))"
    and "\<not> no_short_write (hist (world_of r)) \<Longrightarrow> r = Inl (Assertion_failed, world_of r)"
    by simp_all
qed

theorem stream_partial_write_fatal_witness:
  "fread 4 (orig \<lparr>orig = [1, 2, 3, 4, 5], count = 0, bytes_sent = 0, io = start_world\<rparr>) =
     ([1, 2, 3, 4], [5], False) \<and>
   \<not> (False \<and> False) \<and> [1 :: byte, 2, 3, 4] \<noteq> [] \<and>
   net_write (short_net [] inet_peer 16 2)
     (hist (io \<lparr>orig = [1, 2, 3, 4, 5], count = 0, bytes_sent = 0, io = start_world\<rparr>))
     [1, 2, 3, 4] \<noteq> int (length [1 :: byte, 2, 3, 4]) \<and>
   stream_loop (short_net [] inet_peer 16 2) False 4 2 True
     \<lparr>orig = [1, 2, 3, 4, 5], count = 0, bytes_sent = 0, io = start_world\<rparr> =
     Some (Inl (Assertion_failed, \<lparr>copy = [], err_out = [], hist = [Ev_write [1, 2, 3, 4] 2]\<rparr>)) \<and>
   stream_process_file (short_net [] inet_peer 16 2) (good_files [1, 2, 3, 4, 5]) 4 2 True =
     Some (Inl (Assertion_failed, \<lparr>copy = [], err_out = [], hist = [Ev_write [1, 2, 3, 4] 2]\<rparr>)) \<and>
   no_short_write (tl (hist (world_of (Inl (Assertion_failed,
     \<lparr>copy = [], err_out = [], hist = [Ev_write [1, 2, 3, 4] 2]\<rparr>))))) \<and>
   \<not> no_short_write (hist (world_of (Inl (Assertion_failed,
     \<lparr>copy = [], err_out = [], hist = [Ev_write [1, 2, 3, 4] 2]\<rparr>))))"
proof -
  have l: "stream_loop (short_net [] inet_peer 16 2) False 4 2 True
     \<lparr>orig = [1, 2, 3, 4, 5], count = 0, bytes_sent = 0, io = start_world\<rparr> =
     Some (Inl (Assertion_failed, \<lparr>copy = [], err_out = [], hist = [Ev_write [1, 2, 3, 4] 2]\<rparr>))"
    using stream_partial_write_fatal
      [of 4 "\<lparr>orig = [1, 2, 3, 4, 5], count = 0, bytes_sent = 0, io = start_world\<rparr>"
          "[1, 2, 3, 4]" "[5]" False False "short_net [] inet_peer 16 2" 2 True]
    by (simp add: fread_def short_net_def start_world_def)
  then have p: "stream_process_file (short_net [] inet_peer 16 2) (good_files [1, 2, 3, 4, 5]) 4 2 True =
     Some (Inl (Assertion_failed, \<lparr>copy = [], err_out = [], hist = [Ev_write [1, 2, 3, 4] 2]\<rparr>))"
    by (simp add: stream_process_file_def good_files_def and_then_def)
  from l p show ?thesis
    by (simp add: fread_def short_net_def start_world_def world_of_def)
qed

section \<open>Counting chunks and checkpoints\<close>

lemma chunks_of_short:
  assumes "0 < c" and "l < c"
  shows "chunks_of l c = (if l = 0 then 0 else 1)"
proof (cases "l = 0")
  case True
  with assms show ?thesis by (simp add: chunks_of_def)
next
  case False
  have "(l + c - 1) div c = 1"
  proof (rule div_nat_eqI)
    show "c * 1 \<le> l + c - 1" using False by simp
    show "l + c - 1 < c * Suc 1" using assms by simp
  qed
  with False show ?thesis by (simp add: chunks_of_def)
qed

lemma chunks_of_long:
  assumes "0 < c" and "c \<le> l"
  shows "chunks_of l c = Suc (chunks_of (l - c) c)"
proof -
  define m where "m = l - 1"
  from assms have e1: "l + c - 1 = m + c" and e2: "l - c + c - 1 = m"
    by (simp_all add: m_def)
  have "(m + c) div c = Suc (m div c)" using assms(1) div_add_self2 [of c m] by simp
  then show ?thesis unfolding chunks_of_def e1 e2 .
qed

lemma chunks_of_multiple:
  assumes "0 < c"
  shows "chunks_of (c * k) c = k"
  unfolding chunks_of_def
proof (rule div_nat_eqI)
  show "c * k \<le> c * k + c - 1" using assms by simp
  show "c * k + c - 1 < c * Suc k" using assms by simp
qed

lemma partial_batch_nonempty:
  assumes "0 < c" and "chunks_of l c mod T \<noteq> 0"
  shows "0 < l mod (c * T)"
proof (rule ccontr)
  assume "\<not> 0 < l mod (c * T)"
  then have "l mod (c * T) = 0" by simp
  then have "c * T dvd l" by (simp only: dvd_eq_mod_eq_0)
  then obtain k where "l = (c * T) * k" unfolding dvd_def by blast
  then have "l = c * (T * k)" by (simp only: mult.assoc)
  with chunks_of_multiple [OF assms(1), of "T * k"] have "chunks_of l c = T * k" by simp
  with assms(2) show False by simp
qed

lemma below_batch:
  fixes n c l T :: nat
  assumes "n + 1 \<le> T" and "l \<le> c"
  shows "n * c + l \<le> c * T"
proof -
  have "n * c + l \<le> n * c + c" using assms(2) by simp
  also have "\<dots> = (n + 1) * c" by simp
  also have "\<dots> \<le> T * c" using assms(1) by (rule mult_le_mono1)
  finally show ?thesis by (simp only: mult.commute [of T c])
qed

lemma last_pass_count:
  fixes n c l T :: nat
  assumes "0 < c" and "n < T" and "l < c"
  shows "(if (if l = 0 then n else n + 1) = T then 0 else (if l = 0 then n else n + 1)) =
           (n + chunks_of l c) mod T"
proof -
  have ch: "chunks_of l c = (if l = 0 then 0 else 1)" by (rule chunks_of_short [OF assms(1,3)])
  show ?thesis
  proof (cases "l = 0")
    case True
    with ch have "chunks_of l c = 0" by simp
    with True assms(2) show ?thesis by simp
  next
    case False
    with ch have c1: "chunks_of l c = 1" by simp
    show ?thesis
    proof (cases "n + 1 = T")
      case True
      with False c1 show ?thesis by simp
    next
      case ne: False
      with assms(2) have "n + 1 < T" by simp
      with False ne c1 show ?thesis by simp
    qed
  qed
qed

lemma last_pass_bytes:
  fixes n c l T :: nat
  assumes "0 < c" and "n < T" and "l < c"
  shows "(if (if l = 0 then n else n + 1) = T then 0 else n * c + l) =
           (if (n + chunks_of l c) mod T = 0 then 0 else (n * c + l) mod (c * T))"
proof -
  have ch: "chunks_of l c = (if l = 0 then 0 else 1)" by (rule chunks_of_short [OF assms(1,3)])
  show ?thesis
  proof (cases "l = 0")
    case True
    with ch have c0: "chunks_of l c = 0" by simp
    from assms(2) have "n + 1 \<le> T" by simp
    from below_batch [OF this, of 0 c] have "n * c \<le> c * T" by simp
    moreover have "n * c \<noteq> c * T" using assms(1,2) by (simp add: mult.commute)
    ultimately have "n * c < c * T" by simp
    then have m: "(n * c) mod (c * T) = n * c" by simp
    from assms(2) have ne: "n \<noteq> T" by simp
    show ?thesis
    proof (cases "n = 0")
      case z: True
      with True ne c0 show ?thesis by simp
    next
      case nz: False
      with assms(2) have "n mod T \<noteq> 0" by simp
      from assms(2) have "n mod T = n" by simp
      with True ne m c0 nz show ?thesis by simp
    qed
  next
    case False
    with ch have c1: "chunks_of l c = 1" by simp
    show ?thesis
    proof (cases "n + 1 = T")
      case True
      with False c1 show ?thesis by simp
    next
      case ne: False
      with assms(2) have lt: "n + 1 < T" by simp
      then have "n + 2 \<le> T" by simp
      have "n * c + l < n * c + c" using assms(3) by simp
      also have "\<dots> \<le> c * T" using below_batch [of n T c c] lt by simp
      finally have m: "(n * c + l) mod (c * T) = n * c + l" by simp
      from lt have "(n + 1) mod T \<noteq> 0" by simp
      with False ne m c1 show ?thesis by simp
    qed
  qed
qed

lemma full_pass_count:
  fixes n c l T :: nat
  assumes "0 < c" and "n < T" and "c \<le> l"
  shows "((if n + 1 = T then 0 else n + 1) + chunks_of (l - c) c) mod T = (n + chunks_of l c) mod T"
proof -
  have ch: "chunks_of l c = Suc (chunks_of (l - c) c)" by (rule chunks_of_long [OF assms(1,3)])
  show ?thesis
  proof (cases "n + 1 = T")
    case True
    then have "n + chunks_of l c = chunks_of (l - c) c + T" by (simp add: ch)
    then have "(n + chunks_of l c) mod T = chunks_of (l - c) c mod T" by (simp only: mod_add_self2)
    with True show ?thesis by simp
  next
    case False
    then show ?thesis by (simp add: ch)
  qed
qed

lemma full_pass_bytes:
  fixes n c l T :: nat
  assumes "0 < c" and "n < T" and "c \<le> l"
  shows "((if n + 1 = T then 0 else n + 1) * c + (l - c)) mod (c * T) = (n * c + l) mod (c * T)"
proof (cases "n + 1 = T")
  case True
  have "n * c + l = n * c + c + (l - c)" using assms(3) by simp
  also have "n * c + c = (n + 1) * c" by simp
  also have "\<dots> = c * T" by (simp only: True mult.commute)
  finally have "n * c + l = (l - c) + c * T" by simp
  then have "(n * c + l) mod (c * T) = (l - c) mod (c * T)" by (simp only: mod_add_self2)
  with True show ?thesis by simp
next
  case False
  have "(n + 1) * c + (l - c) = n * c + l" using assms(3) by simp
  with False show ?thesis by simp
qed

lemma recv_write_returns:
  assumes "nonfatal_datagram nt srv srv_len" and "0 \<le> n"
  shows "\<exists>w'. recv_write nt w srv srv_len n = Inr w'"
proof -
  define rc where "rc = net_select nt (hist w) \<lparr>tv_sec = 2, tv_usec = 0\<rparr>"
  from assms(1) have rc: "0 \<le> rc" by (simp add: nonfatal_datagram_def rc_def)
  from assms(1) obtain payload src len where
    d: "net_recvfrom nt (Ev_select rc # hist w) (nat n) = Datagram payload src len"
    and m: "address_match src len srv srv_len = Inr True"
    unfolding nonfatal_datagram_def by blast
  show ?thesis
  proof (cases "rc = 0")
    case True
    then show ?thesis by (simp add: recv_write_def Let_def rc_def [symmetric])
  next
    case False
    with rc d m assms(2) show ?thesis
      by (simp add: recv_write_def Let_def rc_def [symmetric])
  qed
qed

lemma datagram_send_counts:
  "datagram_send nt srv srv_len buf st = Inr st1 \<Longrightarrow>
   orig st1 = orig st \<and> count st1 = (if buf = [] then count st else c_int (count st + 1)) \<and>
   bytes_sent st1 =
     (if buf = [] then bytes_sent st else c_int (bytes_sent st + int (length buf)))"
  by (auto simp: datagram_send_def and_then_def split: if_splits sum.splits)

lemma datagram_checkpoint_counts:
  "datagram_checkpoint nt srv srv_len n_times f st1 = Inr st2 \<Longrightarrow>
   orig st2 = orig st1 \<and> count st2 = (if count st1 = n_times then 0 else count st1) \<and>
   bytes_sent st2 = (if count st1 = n_times then 0 else bytes_sent st1)"
  by (auto simp: datagram_checkpoint_def and_then_def split: if_splits sum.splits)

lemma datagram_body_counts:
  assumes "datagram_body nt bad srv srv_len c (int T) f st = Inr (st', eof)"
    and "count st = int n" and "bytes_sent st = int b"
    and "int n + 1 \<le> INT_MAX" and "int (b + length (take c (orig st))) \<le> INT_MAX"
  shows "orig st' = drop c (orig st)" and "eof = (length (orig st) < c)"
    and "count st' = int (if (if take c (orig st) = [] then n else n + 1) = T then 0
                          else (if take c (orig st) = [] then n else n + 1))"
    and "bytes_sent st' = int (if (if take c (orig st) = [] then n else n + 1) = T then 0
                               else b + length (take c (orig st)))"
proof -
  define buf where "buf = take c (orig st)"
  define st0 where "st0 = st\<lparr>orig := drop c (orig st)\<rparr>"
  from assms(1) obtain st1 where
    s1: "datagram_send nt srv srv_len buf st0 = Inr st1"
    and s2: "datagram_checkpoint nt srv srv_len (int T) f st1 = Inr st'"
    and e: "eof = (length (orig st) < c)"
    by (auto simp: datagram_body_def fread_def and_then_def buf_def st0_def
          split: if_splits sum.splits)
  from assms(4) have w1: "c_int (int n + 1) = int n + 1"
    by (intro c_int_id) (simp_all add: INT_MAX_def)
  from assms(5) have w2: "c_int (int b + int (length buf)) = int b + int (length buf)"
    by (intro c_int_id) (simp_all add: INT_MAX_def buf_def)
  from datagram_send_counts [OF s1] assms(2,3) w1 w2
  have c1: "orig st1 = drop c (orig st)"
    "count st1 = int (if buf = [] then n else n + 1)"
    "bytes_sent st1 = int (b + length buf)"
    by (simp_all add: st0_def)
  from datagram_checkpoint_counts [OF s2]
  have c2: "orig st' = orig st1" "count st' = (if count st1 = int T then 0 else count st1)"
    "bytes_sent st' = (if count st1 = int T then 0 else bytes_sent st1)"
    by simp_all
  show "orig st' = drop c (orig st)" using c1 c2 by simp
  show "eof = (length (orig st) < c)" by (rule e)
  show "count st' = int (if (if take c (orig st) = [] then n else n + 1) = T then 0
                          else (if take c (orig st) = [] then n else n + 1))"
    unfolding c2(2) c1(2) buf_def by (cases "take c (orig st) = []") auto
  show "bytes_sent st' = int (if (if take c (orig st) = [] then n else n + 1) = T then 0
                               else b + length (take c (orig st)))"
    unfolding c2(3) c1(2,3) buf_def by (cases "take c (orig st) = []") auto
qed

lemma datagram_body_returns:
  assumes "\<not> bad" and "nonfatal_datagram nt srv srv_len"
    and "count st = int n" and "bytes_sent st = int b"
    and "int n + 1 \<le> INT_MAX" and "int (b + length (take c (orig st))) \<le> INT_MAX"
  shows "\<exists>p. datagram_body nt bad srv srv_len c n_times f st = Inr p"
proof -
  define buf where "buf = take c (orig st)"
  define st0 where "st0 = st\<lparr>orig := drop c (orig st)\<rparr>"
  from assms(2) have "net_sendto nt (hist (io st0)) buf srv srv_len \<ge> 0"
    by (simp add: nonfatal_datagram_def)
  then have "\<exists>st1. datagram_send nt srv srv_len buf st0 = Inr st1"
    by (cases "buf = []") (simp_all add: datagram_send_def send_packet_def and_then_def Let_def)
  then obtain st1 where s1: "datagram_send nt srv srv_len buf st0 = Inr st1" ..
  from assms(6) have w2: "c_int (int b + int (length buf)) = int b + int (length buf)"
    by (intro c_int_id) (simp_all add: INT_MAX_def buf_def)
  from datagram_send_counts [OF s1] assms(4) w2 have "0 \<le> bytes_sent st1"
    by (simp add: st0_def split: if_splits)
  from recv_write_returns [OF assms(2) this]
  obtain w' where "recv_write nt (call_hook f (io st1)) srv srv_len (bytes_sent st1) = Inr w'"
    by blast
  then have "\<exists>st2. datagram_checkpoint nt srv srv_len n_times f st1 = Inr st2"
    by (cases "count st1 = n_times") (simp_all add: datagram_checkpoint_def and_then_def)
  then obtain st2 where "datagram_checkpoint nt srv srv_len n_times f st1 = Inr st2" ..
  with s1 assms(1) show ?thesis
    by (simp add: datagram_body_def fread_def and_then_def buf_def st0_def)
qed

lemma pass_fits:
  fixes n c l T :: nat
  assumes "n < T" and "int T \<le> INT_MAX"
    and "int (n * c + l) \<le> INT_MAX \<or> int (c * T) \<le> INT_MAX"
  shows "int n + 1 \<le> INT_MAX" and "int (n * c + min l c) \<le> INT_MAX"
proof -
  from assms(1,2) show "int n + 1 \<le> INT_MAX" by simp
  from assms(3) show "int (n * c + min l c) \<le> INT_MAX"
  proof
    assume a: "int (n * c + l) \<le> INT_MAX"
    have "n * c + min l c \<le> n * c + l" by simp
    then have "int (n * c + min l c) \<le> int (n * c + l)" by (simp only: of_nat_le_iff)
    with a show ?thesis by simp
  next
    assume a: "int (c * T) \<le> INT_MAX"
    from assms(1) have "n + 1 \<le> T" by simp
    from below_batch [OF this, of "min l c" c] have "n * c + min l c \<le> c * T" by simp
    then have "int (n * c + min l c) \<le> int (c * T)" by (simp only: of_nat_le_iff)
    with a show ?thesis by simp
  qed
qed

lemma datagram_loop_counts:
  fixes c T :: nat
  assumes "0 < c" and "int T \<le> INT_MAX"
  shows "count st = int n \<Longrightarrow> n < T \<Longrightarrow> bytes_sent st = int (n * c) \<Longrightarrow>
         int (n * c + length (orig st)) \<le> INT_MAX \<or> int (c * T) \<le> INT_MAX \<Longrightarrow>
         \<exists>r. datagram_loop nt bad srv srv_len c (int T) f st = Some r \<and>
             (\<not> bad \<and> nonfatal_datagram nt srv srv_len \<longrightarrow> (\<exists>st'. r = Inr st')) \<and>
             (\<forall>st'. r = Inr st' \<longrightarrow>
                count st' = int ((n + chunks_of (length (orig st)) c) mod T) \<and>
                bytes_sent st' = int (if (n + chunks_of (length (orig st)) c) mod T = 0 then 0
                                      else (n * c + length (orig st)) mod (c * T)))"
proof (induction "length (orig st)" arbitrary: st n rule: less_induct)
  case less
  define l where "l = length (orig st)"
  note cn = less.prems(1) and nT = less.prems(2) and bs = less.prems(3)
  have tk: "(take c (orig st) = []) = (l = 0)" "length (take c (orig st)) = min l c"
    using assms(1) by (simp_all add: l_def)
  from less.prems(4) have fit: "int (n * c + l) \<le> INT_MAX \<or> int (c * T) \<le> INT_MAX"
    by (simp only: l_def)
  note pf = pass_fits [OF nT assms(2) fit]
  have pf2: "int (n * c + length (take c (orig st))) \<le> INT_MAX"
    using pf(2) by (simp only: tk)
  show ?case
  proof (cases "datagram_body nt bad srv srv_len c (int T) f st")
    case (Inl p)
    then have lp: "datagram_loop nt bad srv srv_len c (int T) f st = Some (Inl p)"
      by (subst datagram_loop.simps) simp
    have "\<not> (\<not> bad \<and> nonfatal_datagram nt srv srv_len)"
    proof
      assume "\<not> bad \<and> nonfatal_datagram nt srv srv_len"
      then have "\<not> bad" "nonfatal_datagram nt srv srv_len" by simp_all
      from datagram_body_returns [OF this cn bs pf(1) pf2, of "int T" f] Inl
      show False by simp
    qed
    with lp show ?thesis by simp
  next
    case (Inr q)
    obtain st1 eof where q: "q = (st1, eof)" by (cases q)
    with Inr have b: "datagram_body nt bad srv srv_len c (int T) f st = Inr (st1, eof)" by simp
    note bc = datagram_body_counts [OF b cn bs pf(1) pf2]
    show ?thesis
    proof (cases "l < c")
      case True
      with bc(2) have "eof" by (simp add: l_def)
      with b have lp: "datagram_loop nt bad srv srv_len c (int T) f st = Some (Inr st1)"
        by (subst datagram_loop.simps) simp
      from True have mn: "min l c = l" by simp
      have "count st1 = int ((n + chunks_of l c) mod T)"
        unfolding bc(3) tk
        by (simp only: last_pass_count [OF assms(1) nT True])
      moreover have "bytes_sent st1 =
          int (if (n + chunks_of l c) mod T = 0 then 0 else (n * c + l) mod (c * T))"
        unfolding bc(4) tk mn
        by (simp only: last_pass_bytes [OF assms(1) nT True])
      ultimately show ?thesis using lp by (simp add: l_def)
    next
      case False
      then have cl: "c \<le> l" by simp
      with assms(1) have l0: "l \<noteq> 0" and mn: "min l c = c" by simp_all
      from False bc(2) have "\<not> eof" by (simp add: l_def)
      with b have
        lp: "datagram_loop nt bad srv srv_len c (int T) f st =
             datagram_loop nt bad srv srv_len c (int T) f st1"
        by (subst datagram_loop.simps) simp
      define n' where "n' = (if n + 1 = T then 0 else n + 1)"
      have c1: "count st1 = int n'" unfolding bc(3) tk n'_def using l0 by simp
      have b1: "bytes_sent st1 = int (n' * c)"
        unfolding bc(4) tk mn n'_def using l0 by (simp add: algebra_simps)
      have n'T: "n' < T" using nT by (auto simp: n'_def)
      have len1: "length (orig st1) = l - c" using bc(1) by (simp add: l_def)
      with cl assms(1) have sh: "length (orig st1) < length (orig st)" by (simp add: l_def)
      have "n' * c + (l - c) \<le> n * c + l" using cl by (auto simp: n'_def)
      then have "int (n' * c + (l - c)) \<le> int (n * c + l)" by (simp only: of_nat_le_iff)
      with fit have fit1: "int (n' * c + length (orig st1)) \<le> INT_MAX \<or> int (c * T) \<le> INT_MAX"
        unfolding len1 by auto
      from less.hyps [OF sh c1 n'T b1 fit1]
      obtain r where r: "datagram_loop nt bad srv srv_len c (int T) f st1 = Some r"
        "\<not> bad \<and> nonfatal_datagram nt srv srv_len \<longrightarrow> (\<exists>st'. r = Inr st')"
        "\<forall>st'. r = Inr st' \<longrightarrow>
           count st' = int ((n' + chunks_of (l - c) c) mod T) \<and>
           bytes_sent st' = int (if (n' + chunks_of (l - c) c) mod T = 0 then 0
                                 else (n' * c + (l - c)) mod (c * T))"
        unfolding len1 by blast
      have e1: "(n' + chunks_of (l - c) c) mod T = (n + chunks_of l c) mod T"
        unfolding n'_def by (rule full_pass_count [OF assms(1) nT cl])
      have e2: "(n' * c + (l - c)) mod (c * T) = (n * c + l) mod (c * T)"
        unfolding n'_def by (rule full_pass_bytes [OF assms(1) nT cl])
      from r(1) lp have "datagram_loop nt bad srv srv_len c (int T) f st = Some r" by simp
      with r(2) r(3) [unfolded e1 e2] show ?thesis by (simp only: l_def) blast
    qed
  qed
qed

lemma stream_send_counts:
  "stream_send nt buf st = Inr st1 \<Longrightarrow>
   orig st1 = orig st \<and> count st1 = (if buf = [] then count st else c_int (count st + 1)) \<and>
   bytes_sent st1 =
     (if buf = [] then bytes_sent st else c_int (bytes_sent st + int (length buf)))"
  by (auto simp: stream_send_def Let_def split: if_splits)

lemma stream_checkpoint_counts:
  "stream_checkpoint nt n_times f st1 = Inr st2 \<Longrightarrow>
   orig st2 = orig st1 \<and> count st2 = (if count st1 = n_times then 0 else count st1) \<and>
   bytes_sent st2 = (if count st1 = n_times then 0 else bytes_sent st1)"
  by (auto simp: stream_checkpoint_def and_then_def split: if_splits sum.splits)

lemma stream_body_counts:
  assumes "stream_body nt bad c (int T) f st = Inr (st', eof)"
    and "count st = int n" and "bytes_sent st = int b"
    and "int n + 1 \<le> INT_MAX" and "int (b + length (take c (orig st))) \<le> INT_MAX"
  shows "orig st' = drop c (orig st)" and "eof = (length (orig st) < c)"
    and "count st' = int (if (if take c (orig st) = [] then n else n + 1) = T then 0
                          else (if take c (orig st) = [] then n else n + 1))"
    and "bytes_sent st' = int (if (if take c (orig st) = [] then n else n + 1) = T then 0
                               else b + length (take c (orig st)))"
proof -
  define buf where "buf = take c (orig st)"
  define st0 where "st0 = st\<lparr>orig := drop c (orig st)\<rparr>"
  from assms(1) obtain st1 where
    s1: "stream_send nt buf st0 = Inr st1"
    and s2: "stream_checkpoint nt (int T) f st1 = Inr st'"
    and e: "eof = (length (orig st) < c)"
    by (auto simp: stream_body_def fread_def and_then_def buf_def st0_def
          split: if_splits sum.splits)
  from assms(4) have w1: "c_int (int n + 1) = int n + 1"
    by (intro c_int_id) (simp_all add: INT_MAX_def)
  from assms(5) have w2: "c_int (int b + int (length buf)) = int b + int (length buf)"
    by (intro c_int_id) (simp_all add: INT_MAX_def buf_def)
  from stream_send_counts [OF s1] assms(2,3) w1 w2
  have c1: "orig st1 = drop c (orig st)"
    "count st1 = int (if buf = [] then n else n + 1)"
    "bytes_sent st1 = int (b + length buf)"
    by (simp_all add: st0_def)
  from stream_checkpoint_counts [OF s2]
  have c2: "orig st' = orig st1" "count st' = (if count st1 = int T then 0 else count st1)"
    "bytes_sent st' = (if count st1 = int T then 0 else bytes_sent st1)"
    by simp_all
  show "orig st' = drop c (orig st)" using c1 c2 by simp
  show "eof = (length (orig st) < c)" by (rule e)
  show "count st' = int (if (if take c (orig st) = [] then n else n + 1) = T then 0
                          else (if take c (orig st) = [] then n else n + 1))"
    unfolding c2(2) c1(2) buf_def by (cases "take c (orig st) = []") auto
  show "bytes_sent st' = int (if (if take c (orig st) = [] then n else n + 1) = T then 0
                               else b + length (take c (orig st)))"
    unfolding c2(3) c1(2,3) buf_def by (cases "take c (orig st) = []") auto
qed

lemma read_write_returns:
  assumes "0 \<le> n"
  shows "\<exists>w'. read_write nt w n = Inr w'"
proof -
  obtain w1 r where lp: "read_write_loop nt w n 0 [] = (w1, r)"
    by (cases "read_write_loop nt w n 0 []")
  from read_write_loop_result [OF lp assms]
  have "case r of None \<Rightarrow> True | Some (m, buf) \<Rightarrow> m = n"
    by (auto split: option.splits)
  with lp show ?thesis by (auto simp: read_write_def split: option.splits)
qed

lemma stream_body_returns:
  assumes "\<not> bad" and "nonfatal_stream nt"
    and "count st = int n" and "bytes_sent st = int b"
    and "int n + 1 \<le> INT_MAX" and "int (b + length (take c (orig st))) \<le> INT_MAX"
  shows "\<exists>p. stream_body nt bad c n_times f st = Inr p"
proof -
  define buf where "buf = take c (orig st)"
  define st0 where "st0 = st\<lparr>orig := drop c (orig st)\<rparr>"
  from assms(2) have "net_write nt (hist (io st0)) buf = int (length buf)"
    by (simp add: nonfatal_stream_def)
  then have "\<exists>st1. stream_send nt buf st0 = Inr st1"
    by (cases "buf = []") (simp_all add: stream_send_def Let_def)
  then obtain st1 where s1: "stream_send nt buf st0 = Inr st1" ..
  from assms(6) have w2: "c_int (int b + int (length buf)) = int b + int (length buf)"
    by (intro c_int_id) (simp_all add: INT_MAX_def buf_def)
  from stream_send_counts [OF s1] assms(4) w2 have "0 \<le> bytes_sent st1"
    by (simp add: st0_def split: if_splits)
  from read_write_returns [OF this]
  obtain w' where "read_write nt (call_hook f (io st1)) (bytes_sent st1) = Inr w'"
    by blast
  then have "\<exists>st2. stream_checkpoint nt n_times f st1 = Inr st2"
    by (cases "count st1 = n_times") (simp_all add: stream_checkpoint_def and_then_def)
  then obtain st2 where "stream_checkpoint nt n_times f st1 = Inr st2" ..
  with s1 assms(1) show ?thesis
    by (simp add: stream_body_def fread_def and_then_def buf_def st0_def)
qed

lemma stream_loop_counts:
  fixes c T :: nat
  assumes "0 < c" and "int T \<le> INT_MAX"
  shows "count st = int n \<Longrightarrow> n < T \<Longrightarrow> bytes_sent st = int (n * c) \<Longrightarrow>
         int (n * c + length (orig st)) \<le> INT_MAX \<or> int (c * T) \<le> INT_MAX \<Longrightarrow>
         \<exists>r. stream_loop nt bad c (int T) f st = Some r \<and>
             (\<not> bad \<and> nonfatal_stream nt \<longrightarrow> (\<exists>st'. r = Inr st')) \<and>
             (\<forall>st'. r = Inr st' \<longrightarrow>
                count st' = int ((n + chunks_of (length (orig st)) c) mod T) \<and>
                bytes_sent st' = int (if (n + chunks_of (length (orig st)) c) mod T = 0 then 0
                                      else (n * c + length (orig st)) mod (c * T)))"
proof (induction "length (orig st)" arbitrary: st n rule: less_induct)
  case less
  define l where "l = length (orig st)"
  note cn = less.prems(1) and nT = less.prems(2) and bs = less.prems(3)
  have tk: "(take c (orig st) = []) = (l = 0)" "length (take c (orig st)) = min l c"
    using assms(1) by (simp_all add: l_def)
  from less.prems(4) have fit: "int (n * c + l) \<le> INT_MAX \<or> int (c * T) \<le> INT_MAX"
    by (simp only: l_def)
  note pf = pass_fits [OF nT assms(2) fit]
  have pf2: "int (n * c + length (take c (orig st))) \<le> INT_MAX"
    using pf(2) by (simp only: tk)
  show ?case
  proof (cases "stream_body nt bad c (int T) f st")
    case (Inl p)
    then have lp: "stream_loop nt bad c (int T) f st = Some (Inl p)"
      by (subst stream_loop.simps) simp
    have "\<not> (\<not> bad \<and> nonfatal_stream nt)"
    proof
      assume "\<not> bad \<and> nonfatal_stream nt"
      then have "\<not> bad" "nonfatal_stream nt" by simp_all
      from stream_body_returns [OF this cn bs pf(1) pf2, of "int T" f] Inl
      show False by simp
    qed
    with lp show ?thesis by simp
  next
    case (Inr q)
    obtain st1 eof where q: "q = (st1, eof)" by (cases q)
    with Inr have b: "stream_body nt bad c (int T) f st = Inr (st1, eof)" by simp
    note bc = stream_body_counts [OF b cn bs pf(1) pf2]
    show ?thesis
    proof (cases "l < c")
      case True
      with bc(2) have "eof" by (simp add: l_def)
      with b have lp: "stream_loop nt bad c (int T) f st = Some (Inr st1)"
        by (subst stream_loop.simps) simp
      from True have mn: "min l c = l" by simp
      have "count st1 = int ((n + chunks_of l c) mod T)"
        unfolding bc(3) tk
        by (simp only: last_pass_count [OF assms(1) nT True])
      moreover have "bytes_sent st1 =
          int (if (n + chunks_of l c) mod T = 0 then 0 else (n * c + l) mod (c * T))"
        unfolding bc(4) tk mn
        by (simp only: last_pass_bytes [OF assms(1) nT True])
      ultimately show ?thesis using lp by (simp add: l_def)
    next
      case False
      then have cl: "c \<le> l" by simp
      with assms(1) have l0: "l \<noteq> 0" and mn: "min l c = c" by simp_all
      from False bc(2) have "\<not> eof" by (simp add: l_def)
      with b have
        lp: "stream_loop nt bad c (int T) f st =
             stream_loop nt bad c (int T) f st1"
        by (subst stream_loop.simps) simp
      define n' where "n' = (if n + 1 = T then 0 else n + 1)"
      have c1: "count st1 = int n'" unfolding bc(3) tk n'_def using l0 by simp
      have b1: "bytes_sent st1 = int (n' * c)"
        unfolding bc(4) tk mn n'_def using l0 by (simp add: algebra_simps)
      have n'T: "n' < T" using nT by (auto simp: n'_def)
      have len1: "length (orig st1) = l - c" using bc(1) by (simp add: l_def)
      with cl assms(1) have sh: "length (orig st1) < length (orig st)" by (simp add: l_def)
      have "n' * c + (l - c) \<le> n * c + l" using cl by (auto simp: n'_def)
      then have "int (n' * c + (l - c)) \<le> int (n * c + l)" by (simp only: of_nat_le_iff)
      with fit have fit1: "int (n' * c + length (orig st1)) \<le> INT_MAX \<or> int (c * T) \<le> INT_MAX"
        unfolding len1 by auto
      from less.hyps [OF sh c1 n'T b1 fit1]
      obtain r where r: "stream_loop nt bad c (int T) f st1 = Some r"
        "\<not> bad \<and> nonfatal_stream nt \<longrightarrow> (\<exists>st'. r = Inr st')"
        "\<forall>st'. r = Inr st' \<longrightarrow>
           count st' = int ((n' + chunks_of (l - c) c) mod T) \<and>
           bytes_sent st' = int (if (n' + chunks_of (l - c) c) mod T = 0 then 0
                                 else (n' * c + (l - c)) mod (c * T))"
        unfolding len1 by blast
      have e1: "(n' + chunks_of (l - c) c) mod T = (n + chunks_of l c) mod T"
        unfolding n'_def by (rule full_pass_count [OF assms(1) nT cl])
      have e2: "(n' * c + (l - c)) mod (c * T) = (n * c + l) mod (c * T)"
        unfolding n'_def by (rule full_pass_bytes [OF assms(1) nT cl])
      from r(1) lp have "stream_loop nt bad c (int T) f st = Some r" by simp
      with r(2) r(3) [unfolded e1 e2] show ?thesis by (simp only: l_def) blast
    qed
  qed
qed

text \<open>
  C5, as amended. Let the chunk size and the checkpoint interval be positive, the
  interval a value of the type int, and let the file or one full batch (chunk size times
  interval) have at most \<open>INT_MAX\<close> bytes. Then the main loop ends, for every transport;
  it ends normally when the source file reads without error and the transport is not
  fatal; and whenever it ends normally, in a state \<open>st\<close>, the following holds. If the
  number of chunks of the file is not a multiple of the interval, then what follows the
  loop is exactly one call of the hook and one receive (\<open>recv_write\<close>, or \<open>read_write\<close>
  on a stream) for the bytes not yet flushed, which are \<open>length file mod (chunk_size *
  n_times)\<close> and more than none. If the number of chunks is a multiple of the interval,
  nothing follows the loop: no hook is called and nothing is received.
\<close>

theorem final_partial_batch_flushed:
  assumes "0 < chunk_size" and "0 < n_times" and "n_times \<le> INT_MAX"
    and "int (length file) \<le> INT_MAX \<or> chunk_size * n_times \<le> INT_MAX"
  shows "(\<exists>r. datagram_loop nt bad srv srv_len (nat chunk_size) n_times f
                 \<lparr>orig = file, count = 0, bytes_sent = 0, io = start_world\<rparr> = Some r \<and>
              (\<not> bad \<and> nonfatal_datagram nt srv srv_len \<longrightarrow> (\<exists>st. r = Inr st)) \<and>
              (\<forall>st. r = Inr st \<longrightarrow>
                 (if chunks_of (length file) (nat chunk_size) mod nat n_times = 0
                  then datagram_flush nt srv srv_len f st = Inr (io st)
                  else 0 < length file mod (nat chunk_size * nat n_times) \<and>
                       datagram_flush nt srv srv_len f st =
                         recv_write nt (call_hook f (io st)) srv srv_len
                           (int (length file mod (nat chunk_size * nat n_times)))))) \<and>
         (\<exists>r. stream_loop nt bad (nat chunk_size) n_times f
                 \<lparr>orig = file, count = 0, bytes_sent = 0, io = start_world\<rparr> = Some r \<and>
              (\<not> bad \<and> nonfatal_stream nt \<longrightarrow> (\<exists>st. r = Inr st)) \<and>
              (\<forall>st. r = Inr st \<longrightarrow>
                 (if chunks_of (length file) (nat chunk_size) mod nat n_times = 0
                  then stream_flush nt f st = Inr (io st)
                  else 0 < length file mod (nat chunk_size * nat n_times) \<and>
                       stream_flush nt f st =
                         read_write nt (call_hook f (io st))
                           (int (length file mod (nat chunk_size * nat n_times))))))"
proof -
  define c where "c = nat chunk_size"
  define T where "T = nat n_times"
  define st0 where "st0 = \<lparr>orig = file, count = 0, bytes_sent = 0, io = start_world\<rparr>"
  from assms have c: "0 < c" and T: "0 < T" and nT: "n_times = int T"
    and cs: "chunk_size = int c"
    by (simp_all add: c_def T_def)
  from assms(3) have Tm: "int T \<le> INT_MAX" by (simp add: nT)
  have i0: "count st0 = int 0" "bytes_sent st0 = int (0 * c)" "length (orig st0) = length file"
    by (simp_all add: st0_def)
  from assms(4) have fit: "int (0 * c + length (orig st0)) \<le> INT_MAX \<or> int (c * T) \<le> INT_MAX"
    by (simp add: i0(3) cs nT)
  have ne: "chunks_of (length file) c mod T \<noteq> 0 \<Longrightarrow> 0 < length file mod (c * T)"
    by (rule partial_batch_nonempty [OF c])
  from datagram_loop_counts [OF c Tm i0(1) T i0(2) fit, of nt bad srv srv_len f, unfolded i0(3)]
  obtain r where r: "datagram_loop nt bad srv srv_len c (int T) f st0 = Some r"
    "\<not> bad \<and> nonfatal_datagram nt srv srv_len \<longrightarrow> (\<exists>st. r = Inr st)"
    "\<forall>st. r = Inr st \<longrightarrow>
       count st = int ((0 + chunks_of (length file) c) mod T) \<and>
       bytes_sent st = int (if (0 + chunks_of (length file) c) mod T = 0 then 0
                            else (0 * c + length file) mod (c * T))"
    by blast
  have dg: "\<forall>st. r = Inr st \<longrightarrow>
            (if chunks_of (length file) c mod T = 0
             then datagram_flush nt srv srv_len f st = Inr (io st)
             else 0 < length file mod (c * T) \<and>
                  datagram_flush nt srv srv_len f st =
                    recv_write nt (call_hook f (io st)) srv srv_len
                      (int (length file mod (c * T))))"
    using r(3) ne by (simp add: datagram_flush_def)
  from stream_loop_counts [OF c Tm i0(1) T i0(2) fit, of nt bad f, unfolded i0(3)]
  obtain q where q: "stream_loop nt bad c (int T) f st0 = Some q"
    "\<not> bad \<and> nonfatal_stream nt \<longrightarrow> (\<exists>st. q = Inr st)"
    "\<forall>st. q = Inr st \<longrightarrow>
       count st = int ((0 + chunks_of (length file) c) mod T) \<and>
       bytes_sent st = int (if (0 + chunks_of (length file) c) mod T = 0 then 0
                            else (0 * c + length file) mod (c * T))"
    by blast
  have sm: "\<forall>st. q = Inr st \<longrightarrow>
            (if chunks_of (length file) c mod T = 0
             then stream_flush nt f st = Inr (io st)
             else 0 < length file mod (c * T) \<and>
                  stream_flush nt f st =
                    read_write nt (call_hook f (io st)) (int (length file mod (c * T))))"
    using q(3) ne by (simp add: stream_flush_def)
  from r(1,2) dg q(1,2) sm show ?thesis
    unfolding c_def [symmetric] st0_def [symmetric] nT nat_int by blast
qed

text \<open>
  The example of the spec: ten bytes, chunk size 4, interval 100. The loop sends three
  datagrams and receives nothing; after it the hook is called once and one receive asks
  for the ten bytes.
\<close>

theorem final_partial_batch_flushed_witness:
  "(0::int) < 4 \<and> (0::int) < 100 \<and> (100::int) \<le> INT_MAX \<and>
   (int (length [1 :: byte, 2, 3, 4, 5, 6, 7, 8, 9, 10]) \<le> INT_MAX \<or> (4::int) * 100 \<le> INT_MAX) \<and>
   chunks_of (length [1 :: byte, 2, 3, 4, 5, 6, 7, 8, 9, 10]) (nat 4) mod nat 100 \<noteq> 0 \<and>
   datagram_loop (echo_net inet_peer 16 3) False inet_peer 16 (nat 4) 100 True
     \<lparr>orig = [1, 2, 3, 4, 5, 6, 7, 8, 9, 10], count = 0, bytes_sent = 0, io = start_world\<rparr> =
     Some (Inr \<lparr>orig = [], count = 3, bytes_sent = 10,
                io = \<lparr>copy = [], err_out = [],
                       hist = [Ev_sendto [9, 10] 2, Ev_sendto [5, 6, 7, 8] 4,
                               Ev_sendto [1, 2, 3, 4] 4]\<rparr>\<rparr>) \<and>
   datagram_flush (echo_net inet_peer 16 3) inet_peer 16 True
     \<lparr>orig = [], count = 3, bytes_sent = 10,
      io = \<lparr>copy = [], err_out = [],
             hist = [Ev_sendto [9, 10] 2, Ev_sendto [5, 6, 7, 8] 4,
                     Ev_sendto [1, 2, 3, 4] 4]\<rparr>\<rparr> =
     recv_write (echo_net inet_peer 16 3)
       (call_hook True \<lparr>copy = [], err_out = [],
             hist = [Ev_sendto [9, 10] 2, Ev_sendto [5, 6, 7, 8] 4,
                     Ev_sendto [1, 2, 3, 4] 4]\<rparr>) inet_peer 16 10 \<and>
   recv_write (echo_net inet_peer 16 3)
       (call_hook True \<lparr>copy = [], err_out = [],
             hist = [Ev_sendto [9, 10] 2, Ev_sendto [5, 6, 7, 8] 4,
                     Ev_sendto [1, 2, 3, 4] 4]\<rparr>) inet_peer 16 10 =
     Inr \<lparr>copy = [[1, 2, 3, 4, 5, 6, 7, 8, 9, 10]], err_out = [],
          hist = [Ev_recvfrom 10 10, Ev_select 1, Ev_mark, Ev_sendto [9, 10] 2,
                  Ev_sendto [5, 6, 7, 8] 4, Ev_sendto [1, 2, 3, 4] 4]\<rparr>"
proof -
  have l: "datagram_loop (echo_net inet_peer 16 3) False inet_peer 16 (nat 4) 100 True
     \<lparr>orig = [1, 2, 3, 4, 5, 6, 7, 8, 9, 10], count = 0, bytes_sent = 0, io = start_world\<rparr> =
     Some (Inr \<lparr>orig = [], count = 3, bytes_sent = 10,
                io = \<lparr>copy = [], err_out = [],
                       hist = [Ev_sendto [9, 10] 2, Ev_sendto [5, 6, 7, 8] 4,
                               Ev_sendto [1, 2, 3, 4] 4]\<rparr>\<rparr>)"
    by (simp add: datagram_loop.simps datagram_body_def fread_def datagram_send_def
          datagram_checkpoint_def and_then_def send_packet_def echo_net_def start_world_def
          c_int_def Let_def)
  have r: "recv_write (echo_net inet_peer 16 3)
       (call_hook True \<lparr>copy = [], err_out = [],
             hist = [Ev_sendto [9, 10] 2, Ev_sendto [5, 6, 7, 8] 4,
                     Ev_sendto [1, 2, 3, 4] 4]\<rparr>) inet_peer 16 10 =
     Inr \<lparr>copy = [[1, 2, 3, 4, 5, 6, 7, 8, 9, 10]], err_out = [],
          hist = [Ev_recvfrom 10 10, Ev_select 1, Ev_mark, Ev_sendto [9, 10] 2,
                  Ev_sendto [5, 6, 7, 8] 4, Ev_sendto [1, 2, 3, 4] 4]\<rparr>"
    by (simp add: recv_write_def call_hook_def echo_net_def inet_peer_def address_match_def
          memcmp_eq_def Let_def)
  have ch: "chunks_of (length [1 :: byte, 2, 3, 4, 5, 6, 7, 8, 9, 10]) (nat 4) mod nat 100 = 3"
    by (simp add: chunks_of_def)
  have h: "(0::int) < 4" "(0::int) < 100" "(100::int) \<le> INT_MAX"
    "int (length [1 :: byte, 2, 3, 4, 5, 6, 7, 8, 9, 10]) \<le> INT_MAX \<or> (4::int) * 100 \<le> INT_MAX"
    by (simp_all add: INT_MAX_def)
  from final_partial_batch_flushed
    [OF h, of "echo_net inet_peer 16 3" False inet_peer 16 True]
  have "\<forall>st. datagram_loop (echo_net inet_peer 16 3) False inet_peer 16 (nat 4) 100 True
            \<lparr>orig = [1, 2, 3, 4, 5, 6, 7, 8, 9, 10], count = 0, bytes_sent = 0,
             io = start_world\<rparr> = Some (Inr st) \<longrightarrow>
          datagram_flush (echo_net inet_peer 16 3) inet_peer 16 True st =
            recv_write (echo_net inet_peer 16 3) (call_hook True (io st)) inet_peer 16
              (int (length [1 :: byte, 2, 3, 4, 5, 6, 7, 8, 9, 10] mod (nat 4 * nat 100)))"
    unfolding ch by auto
  with l have "datagram_flush (echo_net inet_peer 16 3) inet_peer 16 True
     \<lparr>orig = [], count = 3, bytes_sent = 10,
      io = \<lparr>copy = [], err_out = [],
             hist = [Ev_sendto [9, 10] 2, Ev_sendto [5, 6, 7, 8] 4,
                     Ev_sendto [1, 2, 3, 4] 4]\<rparr>\<rparr> =
     recv_write (echo_net inet_peer 16 3)
       (call_hook True \<lparr>copy = [], err_out = [],
             hist = [Ev_sendto [9, 10] 2, Ev_sendto [5, 6, 7, 8] 4,
                     Ev_sendto [1, 2, 3, 4] 4]\<rparr>) inet_peer 16 10"
    by simp
  with l r ch h show ?thesis by simp
qed

text \<open>
  C5 as the spec states it fails for a file of seven bytes with chunk size 4 and
  interval 2: seven is positive and no multiple of eight, but the second chunk completes
  a batch, so the receive for the seven bytes happens inside the loop, the loop ends with
  both counters zero, and after it no hook is called and nothing is received. The whole
  run has one hook call and one receive.
\<close>

theorem final_partial_batch_counterexample:
  "0 < length [1 :: byte, 2, 3, 4, 5, 6, 7] \<and>
   length [1 :: byte, 2, 3, 4, 5, 6, 7] mod (4 * 2) \<noteq> 0 \<and>
   datagram_loop (echo_net inet_peer 16 3) False inet_peer 16 4 2 True
     \<lparr>orig = [1, 2, 3, 4, 5, 6, 7], count = 0, bytes_sent = 0, io = start_world\<rparr> =
     Some (Inr \<lparr>orig = [], count = 0, bytes_sent = 0,
                io = \<lparr>copy = [[1, 2, 3, 4, 5, 6, 7]], err_out = [],
                       hist = [Ev_recvfrom 7 7, Ev_select 1, Ev_mark,
                               Ev_sendto [5, 6, 7] 3, Ev_sendto [1, 2, 3, 4] 4]\<rparr>\<rparr>) \<and>
   datagram_flush (echo_net inet_peer 16 3) inet_peer 16 True
     \<lparr>orig = [], count = 0, bytes_sent = 0,
      io = \<lparr>copy = [[1, 2, 3, 4, 5, 6, 7]], err_out = [],
             hist = [Ev_recvfrom 7 7, Ev_select 1, Ev_mark,
                     Ev_sendto [5, 6, 7] 3, Ev_sendto [1, 2, 3, 4] 4]\<rparr>\<rparr> =
     Inr \<lparr>copy = [[1, 2, 3, 4, 5, 6, 7]], err_out = [],
          hist = [Ev_recvfrom 7 7, Ev_select 1, Ev_mark,
                  Ev_sendto [5, 6, 7] 3, Ev_sendto [1, 2, 3, 4] 4]\<rparr> \<and>
   datagram_process_file (echo_net inet_peer 16 3) (good_files [1, 2, 3, 4, 5, 6, 7])
     inet_peer 16 4 2 True =
     Some (Inr \<lparr>copy = [[1, 2, 3, 4, 5, 6, 7]], err_out = [],
                hist = [Ev_recvfrom 7 7, Ev_select 1, Ev_mark,
                        Ev_sendto [5, 6, 7] 3, Ev_sendto [1, 2, 3, 4] 4]\<rparr>)"
  by (simp add: datagram_process_file_def good_files_def close_files_def
        datagram_loop.simps datagram_body_def fread_def datagram_send_def
        datagram_checkpoint_def datagram_flush_def and_then_def send_packet_def recv_write_def
        call_hook_def echo_net_def start_world_def inet_peer_def address_match_def
        memcmp_eq_def c_int_def Let_def)

end
